theory Spec2Isabelle
  imports Main "HOL-Library.Char_ord" "HOL-Library.List_Lexorder" "HOL-Library.Sublist"
begin

section \<open>Strings\<close>

text \<open>
  Python strings are modelled as \<^typ>\<open>string\<close>. \<open>str.strip()\<close> removes leading and trailing
  characters for which \<open>str.isspace\<close> holds; on the code points below 256 these are
  9 to 13, 28 to 32, 133 and 160. \<open>sorted\<close> on strings compares code points
  lexicographically, which is the order of \<open>List_Lexorder\<close> over \<open>Char_ord\<close>.
\<close>

definition isspace :: "char \<Rightarrow> bool" where
  "isspace c = (of_char c \<in> {9, 10, 11, 12, 13, 28, 29, 30, 31, 32, 133, 160 :: nat})"

definition strip :: "string \<Rightarrow> string" where
  "strip s = rev (dropWhile isspace (rev (dropWhile isspace s)))"

definition digit_char :: "nat \<Rightarrow> char" where
  "digit_char n = char_of (48 + n)"

fun str_nat :: "nat \<Rightarrow> string" where
  "str_nat n = (if n < 10 then [digit_char n] else str_nat (n div 10) @ [digit_char (n mod 10)])"

declare str_nat.simps [simp del]

definition str_int :: "int \<Rightarrow> string" where
  "str_int i = (if i < 0 then CHR ''-'' # str_nat (nat (- i)) else str_nat (nat i))"

section \<open>Events and exits\<close>

text \<open>
  Everything the script does to the outside world is recorded as an event, in order.
  \<open>Sleep\<close> carries milliseconds. \<open>Print\<close> and \<open>Echo_err\<close> carry the ASCII text of the
  line written to standard output and standard error; the pictographs and bullet glyphs
  that decorate some lines of the source are left out.
\<close>

record view =
  uniqueId :: string
  getText :: string
  getXY :: "int \<times> int"

datatype event =
    Dump
  | FindViewById string
  | FindViewsContainingText string
  | FindViewsWithContentDescriptionRe string
  | FindViewsWithAttribute string bool
  | Touch view
  | Shell string
  | Drag "int \<times> int" "int \<times> int" nat nat
  | Sleep int
  | Print string
  | Echo_err string
  | Connect "string option"

section \<open>Input loader\<close>

text \<open>
  A file system maps a path to the lines the file iterator yields (each with its line
  terminator), or to \<open>None\<close> when opening the file raises \<open>FileNotFoundError\<close>.
  The \<open>phonenumbers\<close> package is not part of the repository: \<open>parse\<close> (with region
  \<open>None\<close>) returns \<open>None\<close> where the library raises \<open>NumberParseException\<close>, and
  \<open>format_number_E164\<close> stands for \<open>format_number(_, PhoneNumberFormat.E164)\<close>.
  \<open>sys.exit(n)\<close> is the result \<open>Inl n\<close>.
\<close>

type_synonym filesystem = "string \<Rightarrow> string list option"

record 'n phonenumbers =
  parse :: "string \<Rightarrow> 'n option"
  format_number_E164 :: "'n \<Rightarrow> string"

fun add_numbers :: "'n phonenumbers \<Rightarrow> string list \<Rightarrow> string set \<Rightarrow> string set" where
  "add_numbers L [] phone_numbers = phone_numbers"
| "add_numbers L (line # rest) phone_numbers =
     (if line = [] then add_numbers L rest phone_numbers
      else case parse L line of
             Some n \<Rightarrow> add_numbers L rest (insert (format_number_E164 L n) phone_numbers)
           | None \<Rightarrow> add_numbers L rest phone_numbers)"

definition get_phone_numbers ::
  "'n phonenumbers \<Rightarrow> filesystem \<Rightarrow> string \<Rightarrow> (nat + string list) \<times> event list" where
  "get_phone_numbers L fs file_path =
     (case fs file_path of
        None \<Rightarrow> (Inl 1, [Echo_err (''Oops, file not found: '' @ file_path)])
      | Some f \<Rightarrow>
          (let phone_numbers = add_numbers L (map strip f) {} in
           if phone_numbers = {} then (Inl 2, [Echo_err ''Oops, no valid phone numbers!''])
           else (Inr (sorted_list_of_set phone_numbers), [])))"

definition readline :: "string list \<Rightarrow> string" where
  "readline f = (case f of [] \<Rightarrow> [] | line # rest \<Rightarrow> line)"

definition get_message :: "filesystem \<Rightarrow> string \<Rightarrow> (nat + string) \<times> event list" where
  "get_message fs file_path =
     (case fs file_path of
        None \<Rightarrow> (Inl 1, [Echo_err (''Oops, file not found: '' @ file_path)])
      | Some f \<Rightarrow>
          (let line = strip (readline f) in
           if line = [] then (Inl 3, [Echo_err ''Content file is empty!''])
           else (Inr line, [])))"

section \<open>Programs over the device\<close>

text \<open>
  \<open>ViewClient\<close> and the device behind it are not part of the repository. They are a record
  of operations over a hidden state \<open>'d\<close>: each operation returns the new state and either
  its value or the message of the exception the library raised. Nothing is assumed about
  them, so every call may raise and every lookup may find nothing.

  A program takes the state of the device and returns its result (\<open>Inl\<close> an exception that
  propagates, \<open>Inr\<close> a value), the events it produced, and the new state.
\<close>

type_synonym lib_error = string

record 'd view_client =
  vc_connect :: "string option \<Rightarrow> 'd \<Rightarrow> (lib_error + unit) \<times> 'd"
  vc_dump :: "'d \<Rightarrow> (lib_error + unit) \<times> 'd"
  vc_findViewById :: "string \<Rightarrow> 'd \<Rightarrow> (lib_error + view option) \<times> 'd"
  vc_findViewsContainingText :: "string \<Rightarrow> 'd \<Rightarrow> (lib_error + view list) \<times> 'd"
  vc_findViewsWithContentDescriptionRe :: "string \<Rightarrow> 'd \<Rightarrow> (lib_error + view list) \<times> 'd"
  vc_findViewsWithAttribute :: "string \<Rightarrow> bool \<Rightarrow> 'd \<Rightarrow> (lib_error + view list) \<times> 'd"
  vc_touch :: "view \<Rightarrow> 'd \<Rightarrow> (lib_error + unit) \<times> 'd"
  vc_shell :: "string \<Rightarrow> 'd \<Rightarrow> (lib_error + unit) \<times> 'd"
  vc_drag :: "int \<times> int \<Rightarrow> int \<times> int \<Rightarrow> nat \<Rightarrow> nat \<Rightarrow> 'd \<Rightarrow> (lib_error + unit) \<times> 'd"

datatype exn =
    RuntimeError string
  | ValueError string
  | ZeroDivisionError string
  | LibraryError lib_error

fun str_exn :: "exn \<Rightarrow> string" where
  "str_exn (RuntimeError m) = m"
| "str_exn (ValueError m) = m"
| "str_exn (ZeroDivisionError m) = m"
| "str_exn (LibraryError m) = m"

type_synonym ('a, 'd) prog = "'d \<Rightarrow> (exn + 'a) \<times> event list \<times> 'd"

definition result :: "(exn + 'a) \<times> event list \<times> 'd \<Rightarrow> exn + 'a" where
  "result r = fst r"

definition events :: "(exn + 'a) \<times> event list \<times> 'd \<Rightarrow> event list" where
  "events r = fst (snd r)"

definition final :: "(exn + 'a) \<times> event list \<times> 'd \<Rightarrow> 'd" where
  "final r = snd (snd r)"

definition ret :: "'a \<Rightarrow> ('a, 'd) prog" where
  "ret x = (\<lambda>d. (Inr x, [], d))"

definition raise :: "exn \<Rightarrow> ('a, 'd) prog" where
  "raise e = (\<lambda>d. (Inl e, [], d))"

fun after :: "event list \<Rightarrow> (exn + 'a) \<times> event list \<times> 'd \<Rightarrow> (exn + 'a) \<times> event list \<times> 'd" where
  "after es (r, es', d) = (r, es @ es', d)"

definition bnd :: "('a, 'd) prog \<Rightarrow> ('a \<Rightarrow> ('b, 'd) prog) \<Rightarrow> ('b, 'd) prog" where
  "bnd m f = (\<lambda>d. case m d of
                     (Inl e, es, d') \<Rightarrow> (Inl e, es, d')
                   | (Inr x, es, d') \<Rightarrow> after es (f x d'))"

definition thn :: "('a, 'd) prog \<Rightarrow> ('b, 'd) prog \<Rightarrow> ('b, 'd) prog" where
  "thn m n = bnd m (\<lambda>_. n)"

definition try_except :: "('a, 'd) prog \<Rightarrow> (exn \<Rightarrow> ('a, 'd) prog) \<Rightarrow> ('a, 'd) prog" where
  "try_except m h = (\<lambda>d. case m d of
                            (Inl e, es, d') \<Rightarrow> after es (h e d')
                          | (Inr x, es, d') \<Rightarrow> (Inr x, es, d'))"

definition call :: "event \<Rightarrow> ('d \<Rightarrow> (lib_error + 'a) \<times> 'd) \<Rightarrow> ('a, 'd) prog" where
  "call ev f = (\<lambda>d. case f d of
                       (Inl m, d') \<Rightarrow> (Inl (LibraryError m), [ev], d')
                     | (Inr x, d') \<Rightarrow> (Inr x, [ev], d'))"

definition emit :: "event \<Rightarrow> (unit, 'd) prog" where
  "emit ev = (\<lambda>d. (Inr (), [ev], d))"

definition print :: "string \<Rightarrow> (unit, 'd) prog" where
  "print s = emit (Print s)"

text \<open>\<open>time.sleep\<close> raises \<open>ValueError\<close> on a negative length.\<close>

definition sleep :: "int \<Rightarrow> (unit, 'd) prog" where
  "sleep ms = (if ms < 0 then raise (ValueError ''sleep length must be non-negative'')
               else emit (Sleep ms))"

fun repeat :: "nat \<Rightarrow> (unit, 'd) prog \<Rightarrow> (unit, 'd) prog" where
  "repeat 0 m = ret ()"
| "repeat (Suc n) m = thn m (repeat n m)"

definition connect :: "'d view_client \<Rightarrow> string option \<Rightarrow> (unit, 'd) prog" where
  "connect V serialno = call (Connect serialno) (vc_connect V serialno)"

definition dump :: "'d view_client \<Rightarrow> (unit, 'd) prog" where
  "dump V = call Dump (vc_dump V)"

definition findViewById :: "'d view_client \<Rightarrow> string \<Rightarrow> (view option, 'd) prog" where
  "findViewById V i = call (FindViewById i) (vc_findViewById V i)"

definition findViewsContainingText :: "'d view_client \<Rightarrow> string \<Rightarrow> (view list, 'd) prog" where
  "findViewsContainingText V t = call (FindViewsContainingText t) (vc_findViewsContainingText V t)"

definition findViewsWithContentDescriptionRe :: "'d view_client \<Rightarrow> string \<Rightarrow> (view list, 'd) prog" where
  "findViewsWithContentDescriptionRe V t =
     call (FindViewsWithContentDescriptionRe t) (vc_findViewsWithContentDescriptionRe V t)"

definition findViewsWithAttribute :: "'d view_client \<Rightarrow> string \<Rightarrow> bool \<Rightarrow> (view list, 'd) prog" where
  "findViewsWithAttribute V a b = call (FindViewsWithAttribute a b) (vc_findViewsWithAttribute V a b)"

definition touch :: "'d view_client \<Rightarrow> view \<Rightarrow> (unit, 'd) prog" where
  "touch V v = call (Touch v) (vc_touch V v)"

definition shell :: "'d view_client \<Rightarrow> string \<Rightarrow> (unit, 'd) prog" where
  "shell V c = call (Shell c) (vc_shell V c)"

definition drag :: "'d view_client \<Rightarrow> int \<times> int \<Rightarrow> int \<times> int \<Rightarrow> nat \<Rightarrow> nat \<Rightarrow> (unit, 'd) prog" where
  "drag V a b duration steps = call (Drag a b duration steps) (vc_drag V a b duration steps)"

section \<open>Constants\<close>

definition MESSAGES_PACKAGE :: string where
  "MESSAGES_PACKAGE = ''com.google.android.apps.messaging''"

definition CONFIRM_ID :: string where
  "CONFIRM_ID = ''android:id/button1''"

definition DELETE_CHAT_ID :: string where
  "DELETE_CHAT_ID = MESSAGES_PACKAGE @ '':id/action_delete''"

definition LAST_CHAT_ID :: string where
  "LAST_CHAT_ID = MESSAGES_PACKAGE @ '':id/swipeableContainer''"

definition START_CHAT_ID :: string where
  "START_CHAT_ID = MESSAGES_PACKAGE @ '':id/start_chat_fab''"

definition CONTACT_SEARCH_FIELD :: string where
  "CONTACT_SEARCH_FIELD = ''ContactSearchField''"

definition COMPOSE_DRAFT_SEND_ID :: string where
  "COMPOSE_DRAFT_SEND_ID = ''Compose:Draft:Send''"

definition CONTACT_SUGGESTION_SELECTOR :: string where
  "CONTACT_SUGGESTION_SELECTOR = ''ContactSuggestionList''"

definition KEYCODE_BACK :: string where
  "KEYCODE_BACK = ''input keyevent KEYCODE_BACK''"

definition KEYCODE_ENTER :: string where
  "KEYCODE_ENTER = ''input keyevent KEYCODE_ENTER''"

definition max_retries :: nat where
  "max_retries = 3"

section \<open>The script\<close>

text \<open>
  The functions of \<open>bulk_sms1.py\<close>, statement by statement. A \<open>block\<close> is a sequence of
  statements; \<open>quote\<close> puts a text between the single quotes of the shell command.
\<close>

fun block :: "(unit, 'd) prog list \<Rightarrow> (unit, 'd) prog" where
  "block [] = ret ()"
| "block (m # ms) = thn m (block ms)"

definition quote :: "string \<Rightarrow> string" where
  "quote s = CHR 0x27 # s @ [CHR 0x27]"

definition open_messages :: "'d view_client \<Rightarrow> (unit, 'd) prog" where
  "open_messages V =
     block [shell V (''am start -n '' @ MESSAGES_PACKAGE @ ''/.ui.ConversationListActivity''),
            sleep 3000]"

subsection \<open>\<open>go_back_to_main_screen\<close>\<close>

text \<open>
  One back press: a tap on the first view whose content description matches \<open>Back\<close>, or the
  hardware back key when there is none. \<open>which\<close> is the word \<open>First\<close> or \<open>Second\<close> of the
  log line, \<open>which'\<close> the same word in lower case.
\<close>

definition back_press :: "'d view_client \<Rightarrow> string \<Rightarrow> string \<Rightarrow> (unit, 'd) prog" where
  "back_press V which which' =
     thn (dump V)
     (bnd (findViewsWithContentDescriptionRe V ''Back'') (\<lambda>back_elements.
        case back_elements of
          b # _ \<Rightarrow> block [print (which @ '' back button press...''), touch V b, sleep 2000]
        | [] \<Rightarrow> block [print (''Using hardware back key ('' @ which' @ '' press)...''),
                       shell V KEYCODE_BACK, sleep 2000]))"

definition navigate_back :: "'d view_client \<Rightarrow> (unit, 'd) prog" where
  "navigate_back V =
     block [print ''Navigating back to main screen...'',
            back_press V ''First'' ''first'',
            back_press V ''Second'' ''second'']"

text \<open>
  The lookup of the start-chat button on a fresh snapshot, by id and then by text. The
  source writes it twice: as the check of the landmark here (lines 142 to 147) and at the
  head of every pass of \<open>send_sms\<close> (lines 174 to 182).
\<close>

definition find_start_chat :: "'d view_client \<Rightarrow> (view option, 'd) prog" where
  "find_start_chat V =
     thn (dump V)
     (bnd (findViewById V START_CHAT_ID) (\<lambda>start_chat.
        case start_chat of
          Some sc \<Rightarrow> ret (Some sc)
        | None \<Rightarrow>
            bnd (findViewsContainingText V ''Start chat'') (\<lambda>start_chat_elements.
              case start_chat_elements of
                sc # _ \<Rightarrow> ret (Some sc)
              | [] \<Rightarrow> ret None)))"

definition back_fallback :: "'d view_client \<Rightarrow> exn \<Rightarrow> (bool, 'd) prog" where
  "back_fallback V e =
     thn (block [print (''Error navigating back: '' @ str_exn e),
                 print ''Fallback: Using hardware back keys...'',
                 shell V KEYCODE_BACK, sleep 2000,
                 shell V KEYCODE_BACK, sleep 2000])
         (ret False)"

text \<open>The \<open>try\<close> block of \<open>go_back_to_main_screen\<close>, and the function with its \<open>except\<close> clause.\<close>

definition go_back_body :: "'d view_client \<Rightarrow> (bool, 'd) prog" where
  "go_back_body V =
     thn (navigate_back V)
     (bnd (find_start_chat V) (\<lambda>start_chat.
        case start_chat of
          Some _ \<Rightarrow> thn (print ''Successfully returned to main Messages screen'') (ret True)
        | None \<Rightarrow> thn (print ''Warning: May not be at main screen yet'') (ret False)))"

definition go_back_to_main_screen :: "'d view_client \<Rightarrow> (bool, 'd) prog" where
  "go_back_to_main_screen V = try_except (go_back_body V) (back_fallback V)"

subsection \<open>\<open>send_sms\<close>\<close>

text \<open>
  One pass of the retry loop ends in \<open>Continue\<close> (the \<open>continue\<close> statement, or the end of
  the \<open>except\<close> clause) or in \<open>Return\<close> (the \<open>return\<close> statement).
\<close>

datatype 'a flow = Continue | Return 'a

definition enter_number :: "'d view_client \<Rightarrow> string \<Rightarrow> view \<Rightarrow> (unit, 'd) prog" where
  "enter_number V phone_number contact_field =
     block [print (''Entering phone number: '' @ phone_number),
            touch V contact_field, sleep 1000,
            shell V ''input keyevent KEYCODE_CTRL_A'', sleep 500,
            shell V (''input text '' @ quote (filter (\<lambda>c. c \<noteq> CHR ''+'') phone_number)),
            sleep 3000,
            print ''Pressing Enter to proceed to conversation...'',
            shell V KEYCODE_ENTER, sleep 3000]"

definition last10 :: "string \<Rightarrow> string" where
  "last10 s = drop (length s - 10) s"

definition suggestion_matches :: "string \<Rightarrow> view \<Rightarrow> bool" where
  "suggestion_matches phone_number suggestion =
     (getText suggestion \<noteq> [] \<and>
      (sublist (last10 phone_number) (getText suggestion) \<or> sublist ''Send to'' (getText suggestion)))"

definition select_suggestion :: "'d view_client \<Rightarrow> string \<Rightarrow> (unit, 'd) prog" where
  "select_suggestion V phone_number =
     thn (dump V)
     (bnd (findViewById V CONTACT_SUGGESTION_SELECTOR) (\<lambda>suggestion_list.
        case suggestion_list of
          None \<Rightarrow> ret ()
        | Some _ \<Rightarrow>
            bnd (findViewsWithAttribute V ''clickable'' True) (\<lambda>suggestions.
              case find (suggestion_matches phone_number) suggestions of
                Some suggestion \<Rightarrow>
                  block [print ''Found contact suggestion, selecting...'',
                         touch V suggestion, sleep 3000]
              | None \<Rightarrow> block [shell V KEYCODE_ENTER, sleep 3000])))"

definition type_message :: "'d view_client \<Rightarrow> string \<Rightarrow> (unit, 'd) prog" where
  "type_message V message =
     block [sleep 2000, dump V,
            print (''Typing message: '' @ message),
            shell V (''input text '' @ quote message), sleep 2000]"

definition send_or_draft :: "'d view_client \<Rightarrow> bool \<Rightarrow> (unit, 'd) prog" where
  "send_or_draft V draft =
     (if \<not> draft then
        thn (print ''Looking for send button...'')
        (thn (dump V)
        (bnd (findViewById V COMPOSE_DRAFT_SEND_ID) (\<lambda>send_button.
           block [case send_button of
                    Some b \<Rightarrow> block [print ''Sending message via button...'', touch V b]
                  | None \<Rightarrow> block [print ''Fallback: pressing Enter to send...'',
                                    shell V KEYCODE_ENTER],
                  sleep 3000,
                  print ''Message sent successfully''])))
      else print ''Message saved as draft'')"

definition attempt_of :: "nat \<Rightarrow> string" where
  "attempt_of attempt = ''(attempt '' @ str_nat (attempt + 1) @ ''/'' @ str_nat max_retries @ '')''"

definition in_new_chat ::
  "'d view_client \<Rightarrow> string \<Rightarrow> string \<Rightarrow> bool \<Rightarrow> nat \<Rightarrow> view \<Rightarrow> (bool flow, 'd) prog" where
  "in_new_chat V phone_number message draft attempt start_chat =
     thn (block [print ''Starting new chat...'', touch V start_chat, sleep 3000, dump V])
     (bnd (findViewById V CONTACT_SEARCH_FIELD) (\<lambda>contact_field.
        case contact_field of
          None \<Rightarrow>
            thn (block [print (''Could not find contact search field '' @ attempt_of attempt
                                 @ ''. Retrying...''),
                        sleep 2000])
                (ret Continue)
        | Some cf \<Rightarrow>
            thn (block [enter_number V phone_number cf,
                        select_suggestion V phone_number,
                        type_message V message,
                        send_or_draft V draft])
                (ret (Return True))))"

definition attempt_body ::
  "'d view_client \<Rightarrow> string \<Rightarrow> string \<Rightarrow> bool \<Rightarrow> nat \<Rightarrow> (bool flow, 'd) prog" where
  "attempt_body V phone_number message draft attempt =
     bnd (find_start_chat V) (\<lambda>start_chat.
       case start_chat of
         Some sc \<Rightarrow> in_new_chat V phone_number message draft attempt sc
       | None \<Rightarrow>
           thn (block [print (''Could not find Start Chat button '' @ attempt_of attempt
                                @ ''. Retrying...''),
                       sleep 2000])
               (ret Continue))"

definition on_error :: "'d view_client \<Rightarrow> nat \<Rightarrow> exn \<Rightarrow> (bool flow, 'd) prog" where
  "on_error V attempt e =
     thn (block [print (''Error on attempt '' @ str_nat (attempt + 1) @ '': '' @ str_exn e),
                 if attempt < max_retries - 1 then
                   block [print ''Retrying after error...'', sleep 2000,
                          repeat 3 (block [shell V KEYCODE_BACK, sleep 1000]),
                          sleep 2000]
                 else ret ()])
         (ret Continue)"

definition send_attempt ::
  "'d view_client \<Rightarrow> string \<Rightarrow> string \<Rightarrow> bool \<Rightarrow> nat \<Rightarrow> (bool flow, 'd) prog" where
  "send_attempt V phone_number message draft attempt =
     try_except (attempt_body V phone_number message draft attempt) (on_error V attempt)"

definition failed_to_send :: "string \<Rightarrow> exn" where
  "failed_to_send phone_number =
     RuntimeError (''Failed to send SMS to '' @ phone_number @ '' after ''
                   @ str_nat max_retries @ '' attempts'')"

fun send_loop ::
  "'d view_client \<Rightarrow> string \<Rightarrow> string \<Rightarrow> bool \<Rightarrow> nat list \<Rightarrow> (bool, 'd) prog" where
  "send_loop V phone_number message draft [] = raise (failed_to_send phone_number)"
| "send_loop V phone_number message draft (attempt # rest) =
     bnd (send_attempt V phone_number message draft attempt) (\<lambda>c.
       case c of
         Return b \<Rightarrow> ret b
       | Continue \<Rightarrow> send_loop V phone_number message draft rest)"

definition send_sms :: "'d view_client \<Rightarrow> string \<Rightarrow> string \<Rightarrow> bool \<Rightarrow> (bool, 'd) prog" where
  "send_sms V phone_number message draft =
     send_loop V phone_number message draft [0 ..< max_retries]"

subsection \<open>\<open>delete_last_sms\<close>\<close>

text \<open>The \<open>try\<close> block of \<open>delete_last_sms\<close>, and the function with its \<open>except\<close> clause.\<close>

definition delete_body :: "'d view_client \<Rightarrow> (unit, 'd) prog" where
  "delete_body V =
     thn (dump V)
     (bnd (findViewById V LAST_CHAT_ID) (\<lambda>last_chat.
        case last_chat of
          None \<Rightarrow> print '' Could not find conversation to delete''
        | Some lc \<Rightarrow>
            thn (block [drag V (getXY lc) (getXY lc) 1000 1, sleep 2000, dump V])
            (bnd (findViewById V DELETE_CHAT_ID) (\<lambda>delete_button.
               case delete_button of
                 Some db \<Rightarrow>
                   thn (block [touch V db, sleep 1000, dump V])
                   (bnd (findViewById V CONFIRM_ID) (\<lambda>confirm_button.
                      case confirm_button of
                        Some cb \<Rightarrow> block [touch V cb, sleep 2000,
                                          print '' Conversation deleted'']
                      | None \<Rightarrow> print '' Could not find delete confirmation''))
               | None \<Rightarrow> print '' Could not find delete button''))))"

definition delete_last_sms :: "'d view_client \<Rightarrow> (unit, 'd) prog" where
  "delete_last_sms V =
     try_except (delete_body V)
       (\<lambda>e. print ('' Error deleting conversation: '' @ str_exn e))"

subsection \<open>\<open>main\<close>\<close>

text \<open>
  The body of the loop over the recipients. \<open>success_count\<close> is incremented right after
  \<open>send_sms\<close> returns, so the count after the pass is one more whenever \<open>send_sms\<close> returned,
  also when a later statement of the \<open>try\<close> block raises. \<open>recover\<close> is the \<open>except\<close> clause.
  The progress bar of \<open>tqdm\<close> is not recorded.
\<close>

definition recover :: "'d view_client \<Rightarrow> string \<Rightarrow> exn \<Rightarrow> (unit, 'd) prog" where
  "recover V phone_number e =
     block [print (''Failed to send to '' @ phone_number @ '': '' @ str_exn e),
            print ''Attempting to recover to main screen...'',
            thn (go_back_to_main_screen V) (ret ()),
            sleep 1000]"

definition after_send :: "'d view_client \<Rightarrow> bool \<Rightarrow> int \<Rightarrow> nat \<Rightarrow> nat \<Rightarrow> (unit, 'd) prog" where
  "after_send V delete delay n i =
     block [print ''Returning to main Messages screen...'',
            thn (go_back_to_main_screen V) (ret ()),
            if delete then block [print ''Deleting conversation...'', delete_last_sms V]
            else ret (),
            if int i < int n - 1 then
              block [print (''Waiting '' @ str_int delay @ '' seconds before next message...''),
                     sleep (delay * 1000)]
            else ret ()]"

definition process ::
  "'d view_client \<Rightarrow> string \<Rightarrow> bool \<Rightarrow> bool \<Rightarrow> int \<Rightarrow> nat \<Rightarrow> nat \<Rightarrow> nat \<Rightarrow> string \<Rightarrow> (nat, 'd) prog" where
  "process V message draft delete delay n i success_count phone_number =
     (\<lambda>d. case send_sms V phone_number message draft d of
             (Inl e, es, d') \<Rightarrow>
               after es (thn (recover V phone_number e) (ret success_count) d')
           | (Inr _, es, d') \<Rightarrow>
               after es (thn (try_except (after_send V delete delay n i) (recover V phone_number))
                             (ret (success_count + 1)) d'))"

fun main_loop ::
  "'d view_client \<Rightarrow> string \<Rightarrow> bool \<Rightarrow> bool \<Rightarrow> int \<Rightarrow> nat \<Rightarrow> nat \<Rightarrow> nat \<Rightarrow> string list \<Rightarrow> (nat, 'd) prog" where
  "main_loop V message draft delete delay n i success_count [] = ret success_count"
| "main_loop V message draft delete delay n i success_count (phone_number # rest) =
     bnd (process V message draft delete delay n i success_count phone_number) (\<lambda>c.
       main_loop V message draft delete delay n (i + 1) c rest)"

text \<open>
  The success rate is printed with a floating-point division and the format \<open>.1f\<close>; its
  text is the parameter \<open>pct\<close>. The division raises \<open>ZeroDivisionError\<close> on an empty list.
\<close>

definition report :: "(nat \<Rightarrow> nat \<Rightarrow> string) \<Rightarrow> nat \<Rightarrow> nat \<Rightarrow> (unit, 'd) prog" where
  "report pct success_count n =
     block [print (replicate 60 CHR ''-''),
            print '' BULK SMS PROCESS COMPLETED'',
            print (''    Successfully processed: '' @ str_nat success_count @ ''/'' @ str_nat n
                   @ '' messages''),
            if n = 0 then raise (ZeroDivisionError ''division by zero'')
            else print (''    Success rate: '' @ pct success_count n @ ''%''),
            if success_count < n then print (''    Failed messages: '' @ str_nat (n - success_count))
            else ret (),
            print [],
            print '' All done! Check your Messages app for results.'',
            print (replicate 60 CHR ''='')]"

definition launch :: "'d view_client \<Rightarrow> string option \<Rightarrow> (unit, 'd) prog" where
  "launch V serialno =
     block [print '' Connecting to Android device...'',
            connect V serialno,
            print '' Device connected successfully'',
            print '' Opening Google Messages app...'',
            open_messages V,
            print '' Messages app launched'',
            print [],
            print '' Starting bulk SMS sending process...'',
            print (replicate 60 CHR ''-'')]"

text \<open>The \<open>try\<close> block of \<open>main\<close>: connecting and opening the app, the loop, the report.\<close>

definition session ::
  "(nat \<Rightarrow> nat \<Rightarrow> string) \<Rightarrow> 'd view_client \<Rightarrow> string option \<Rightarrow> bool \<Rightarrow> bool \<Rightarrow> int \<Rightarrow>
   string list \<Rightarrow> string \<Rightarrow> (unit, 'd) prog" where
  "session pct V serialno draft delete delay phone_numbers message =
     thn (launch V serialno)
     (bnd (main_loop V message draft delete delay (length phone_numbers) 0 0 phone_numbers)
        (\<lambda>success_count. report pct success_count (length phone_numbers)))"

definition header :: "event list" where
  "header =
     [Print (replicate 60 CHR ''=''),
      Print ''           BULK SMS SENDER v2.1'',
      Print ''      Google Messages Automation via ADB'',
      Print (replicate 60 CHR ''=''),
      Print []]"

definition configuration ::
  "string option \<Rightarrow> bool \<Rightarrow> bool \<Rightarrow> int \<Rightarrow> string list \<Rightarrow> string \<Rightarrow> event list" where
  "configuration serialno draft delete delay phone_numbers message =
     [Print '' Configuration:'',
      Print (''    Phone numbers found: '' @ str_nat (length phone_numbers)),
      Print (''    Message: '' @ take 50 message @ (if length message > 50 then ''...'' else [])),
      Print (''    Mode: '' @ (if draft then ''Draft only'' else ''Send messages'')),
      Print (''    Delete after: '' @ (if delete then ''Yes'' else ''No'')),
      Print (''    Delay between messages: '' @ str_int delay @ ''s''),
      Print (''    Target device: '' @
             (case serialno of None \<Rightarrow> ''Auto-detect''
              | Some sn \<Rightarrow> if sn = [] then ''Auto-detect'' else sn)),
      Print []]"

text \<open>
  The input files are read before the \<open>try\<close> block: \<open>startup\<close> is the two loader calls of
  \<open>main\<close>, in their order. \<open>main\<close> returns the exit code of the process (0 when it runs to
  its end), the events and the last state of the device. Setting the environment variable
  for the bridge executable is not recorded.
\<close>

definition startup ::
  "'n phonenumbers \<Rightarrow> filesystem \<Rightarrow> (nat + string list \<times> string) \<times> event list" where
  "startup L fs =
     (case get_phone_numbers L fs ''numbers.txt'' of
        (Inl code, es) \<Rightarrow> (Inl code, es)
      | (Inr phone_numbers, es) \<Rightarrow>
          (case get_message fs ''content.txt'' of
             (Inl code, es') \<Rightarrow> (Inl code, es @ es')
           | (Inr message, es') \<Rightarrow> (Inr (phone_numbers, message), es @ es')))"

definition critical :: "exn \<Rightarrow> event list" where
  "critical e =
     [Print ('' Critical error: '' @ str_exn e),
      Print '' Bulk SMS process terminated unexpectedly'',
      Print (replicate 60 CHR ''='')]"

definition main ::
  "'n phonenumbers \<Rightarrow> filesystem \<Rightarrow> (nat \<Rightarrow> nat \<Rightarrow> string) \<Rightarrow> 'd view_client \<Rightarrow>
   string option \<Rightarrow> bool \<Rightarrow> bool \<Rightarrow> int \<Rightarrow> 'd \<Rightarrow> nat \<times> event list \<times> 'd" where
  "main L fs pct V serialno draft delete delay d =
     (case startup L fs of
        (Inl code, es) \<Rightarrow> (code, header @ es, d)
      | (Inr (phone_numbers, message), es) \<Rightarrow>
          (let es0 = header @ es @ configuration serialno draft delete delay phone_numbers message
           in case session pct V serialno draft delete delay phone_numbers message d of
                (Inr _, es', d') \<Rightarrow> (0, es0 @ es', d')
              | (Inl e, es', d') \<Rightarrow> (1, es0 @ es' @ critical e, d')))"

section \<open>Notions used in the statements\<close>

text \<open>
  The canonical identifiers of a numbers file: the E164 form of every line that, once
  stripped, is not empty and is accepted by the parser.
\<close>

definition valid_numbers :: "'n phonenumbers \<Rightarrow> string list \<Rightarrow> string set" where
  "valid_numbers L f =
     set (map (\<lambda>l. format_number_E164 L (the (parse L (strip l))))
              (filter (\<lambda>l. strip l \<noteq> [] \<and> parse L (strip l) \<noteq> None) f))"

text \<open>
  What the specification says of the message body, in its words: the text of the first
  non-blank line of the content file, stripped.
\<close>

definition spec_first_non_blank_line :: "string list \<Rightarrow> string option" where
  "spec_first_non_blank_line f = map_option strip (find (\<lambda>l. strip l \<noteq> []) f)"

text \<open>
  \<open>emits P m\<close>: whatever the state of the device, every event the program \<open>m\<close> produces
  satisfies \<open>P\<close>.
\<close>

definition emits :: "(event \<Rightarrow> bool) \<Rightarrow> ('a, 'd) prog \<Rightarrow> bool" where
  "emits P m = (\<forall>d. list_all P (events (m d)))"

named_theorems emits_intros

text \<open>
  The events that belong to submitting a message: the lookup of the send button and the
  log lines that announce the lookup, the tap on the button, the fallback key event and
  the completed send.
\<close>

definition send_action :: "event \<Rightarrow> bool" where
  "send_action e =
     (e = FindViewById COMPOSE_DRAFT_SEND_ID
      \<or> e = Print ''Looking for send button...''
      \<or> e = Print ''Sending message via button...''
      \<or> e = Print ''Fallback: pressing Enter to send...''
      \<or> e = Print ''Message sent successfully'')"

text \<open>
  \<open>ensures Q m\<close>: whenever \<open>m\<close> returns a value, \<open>Q\<close> holds of the value and of the events
  produced. \<open>stable Q\<close>: \<open>Q\<close> survives events put in front.
\<close>

definition ensures :: "('a \<Rightarrow> event list \<Rightarrow> bool) \<Rightarrow> ('a, 'd) prog \<Rightarrow> bool" where
  "ensures Q m = (\<forall>d. case m d of (Inr x, es, d') \<Rightarrow> Q x es | (Inl e, es, d') \<Rightarrow> True)"

definition stable :: "('a \<Rightarrow> event list \<Rightarrow> bool) \<Rightarrow> bool" where
  "stable Q = (\<forall>x es es'. Q x es \<longrightarrow> Q x (es' @ es))"

text \<open>
  The last events of a pass that leaves a draft: the message is typed, the script waits,
  and logs that the draft is saved.
\<close>

definition draft_ending :: "string \<Rightarrow> event list" where
  "draft_ending message =
     [Shell (''input text '' @ quote message), Sleep 2000, Print ''Message saved as draft'']"

definition draft_flow :: "string \<Rightarrow> bool flow \<Rightarrow> event list \<Rightarrow> bool" where
  "draft_flow m c es = (c \<noteq> Continue \<longrightarrow> c = Return True \<and> suffix (draft_ending m) es)"

text \<open>
  A back navigation is a tap or the hardware back key. \<open>back_key_works\<close>: the shell command of
  the hardware back key never raises on this device. \<open>fallback_events\<close> are the events of the
  \<open>except\<close> clause of \<open>go_back_to_main_screen\<close> when it runs to its end.
\<close>

definition back_navigation :: "event \<Rightarrow> bool" where
  "back_navigation e = (case e of Touch v \<Rightarrow> True | Shell c \<Rightarrow> c = KEYCODE_BACK | _ \<Rightarrow> False)"

definition back_key_works :: "'d view_client \<Rightarrow> bool" where
  "back_key_works V = (\<forall>d. fst (vc_shell V KEYCODE_BACK d) = Inr ())"

definition fallback_events :: "exn \<Rightarrow> event list" where
  "fallback_events e =
     [Print (''Error navigating back: '' @ str_exn e),
      Print ''Fallback: Using hardware back keys...'',
      Shell KEYCODE_BACK, Sleep 2000, Shell KEYCODE_BACK, Sleep 2000]"

text \<open>
  The events of the \<open>except\<close> clause of \<open>send_sms\<close> on a pass that is not the last, when it
  runs to its end: the error line, the retry line, and three hardware back keys.
\<close>

definition retry_events :: "nat \<Rightarrow> exn \<Rightarrow> event list" where
  "retry_events attempt e =
     [Print (''Error on attempt '' @ str_nat (attempt + 1) @ '': '' @ str_exn e),
      Print ''Retrying after error...'', Sleep 2000,
      Shell KEYCODE_BACK, Sleep 1000, Shell KEYCODE_BACK, Sleep 1000, Shell KEYCODE_BACK, Sleep 1000,
      Sleep 2000]"

text \<open>
  Every pass of \<open>send_sms\<close> that does not return logs exactly one of three lines: the
  start-chat button was not found, the contact search field was not found, or an error
  was caught. \<open>attempt_failed\<close> recognises these lines, so the failed passes of a call can
  be counted in its events. \<open>start_chat_notice\<close> is the first of them.
\<close>

definition attempt_failed :: "event \<Rightarrow> bool" where
  "attempt_failed e =
     (case e of
        Print s \<Rightarrow> prefix ''Could not find Start Chat button'' s
                 \<or> prefix ''Could not find contact search field'' s
                 \<or> prefix ''Error on attempt '' s
      | _ \<Rightarrow> False)"

definition start_chat_notice :: "nat \<Rightarrow> event" where
  "start_chat_notice attempt =
     Print (''Could not find Start Chat button '' @ attempt_of attempt @ ''. Retrying...'')"

text \<open>
  \<open>never_raises\<close>: no call to the device raises. \<open>contact_field_present\<close>: the lookup of the
  contact search field never comes back empty. \<open>unfailing m\<close>: the program \<open>m\<close> returns a
  value from every state.
\<close>

definition never_raises :: "'d view_client \<Rightarrow> bool" where
  "never_raises V =
     ((\<forall>s d. \<not> isl (fst (vc_connect V s d)))
      \<and> (\<forall>d. \<not> isl (fst (vc_dump V d)))
      \<and> (\<forall>i d. \<not> isl (fst (vc_findViewById V i d)))
      \<and> (\<forall>t d. \<not> isl (fst (vc_findViewsContainingText V t d)))
      \<and> (\<forall>t d. \<not> isl (fst (vc_findViewsWithContentDescriptionRe V t d)))
      \<and> (\<forall>a b d. \<not> isl (fst (vc_findViewsWithAttribute V a b d)))
      \<and> (\<forall>v d. \<not> isl (fst (vc_touch V v d)))
      \<and> (\<forall>c d. \<not> isl (fst (vc_shell V c d)))
      \<and> (\<forall>a b t n d. \<not> isl (fst (vc_drag V a b t n d))))"

definition contact_field_present :: "'d view_client \<Rightarrow> bool" where
  "contact_field_present V = (\<forall>d. fst (vc_findViewById V CONTACT_SEARCH_FIELD d) \<noteq> Inr None)"

definition unfailing :: "('a, 'd) prog \<Rightarrow> bool" where
  "unfailing m = (\<forall>d. \<not> isl (result (m d)))"

named_theorems unfailing_intros

text \<open>
  The events of deleting a conversation: the log line of \<open>main\<close> that announces it, the
  lookups of the conversation row, the delete button and the confirmation button, and the
  long press. \<open>delay_notice\<close> is the log line before the pause between two recipients;
  \<open>recover_log\<close> are the two log lines at the head of the \<open>except\<close> clause of the loop.
\<close>

definition cleanup_event :: "event \<Rightarrow> bool" where
  "cleanup_event e =
     (e = Print ''Deleting conversation...''
      \<or> e = FindViewById LAST_CHAT_ID \<or> e = FindViewById DELETE_CHAT_ID
      \<or> e = FindViewById CONFIRM_ID
      \<or> (case e of Drag a b t n \<Rightarrow> True | _ \<Rightarrow> False))"

definition delay_notice :: "int \<Rightarrow> event" where
  "delay_notice delay = Print (''Waiting '' @ str_int delay @ '' seconds before next message...'')"

definition no_cleanup_or_delay :: "int \<Rightarrow> event \<Rightarrow> bool" where
  "no_cleanup_or_delay delay e = (\<not> cleanup_event e \<and> e \<noteq> delay_notice delay)"

definition recover_log :: "string \<Rightarrow> exn \<Rightarrow> event list" where
  "recover_log phone_number e =
     [Print (''Failed to send to '' @ phone_number @ '': '' @ str_exn e),
      Print ''Attempting to recover to main screen...'']"

text \<open>
  The last line \<open>delete_last_sms\<close> can log: the deletion is done, one of the three
  affordances is missing, or an error was caught.
\<close>

definition deletion_outcome :: "event \<Rightarrow> bool" where
  "deletion_outcome e =
     (case e of
        Print s \<Rightarrow> s = '' Conversation deleted''
                 \<or> s = '' Could not find conversation to delete''
                 \<or> s = '' Could not find delete button''
                 \<or> s = '' Could not find delete confirmation''
                 \<or> prefix '' Error deleting conversation: '' s
      | _ \<Rightarrow> False)"

definition ends_with_outcome :: "unit \<Rightarrow> event list \<Rightarrow> bool" where
  "ends_with_outcome u es = (es \<noteq> [] \<and> deletion_outcome (last es))"

text \<open>
  The three lookups of \<open>delete_last_sms\<close>, each with the steps that lead to it: the
  conversation row after a snapshot; the delete button after the long press on the row;
  the confirmation button after the touch on the delete button. They name the points at
  which an affordance can be missing.
\<close>

definition find_row :: "'d view_client \<Rightarrow> (view option, 'd) prog" where
  "find_row V = thn (dump V) (findViewById V LAST_CHAT_ID)"

definition find_delete_button :: "'d view_client \<Rightarrow> view \<Rightarrow> (view option, 'd) prog" where
  "find_delete_button V lc =
     thn (block [drag V (getXY lc) (getXY lc) 1000 1, sleep 2000, dump V])
         (findViewById V DELETE_CHAT_ID)"

definition find_confirm_button :: "'d view_client \<Rightarrow> view \<Rightarrow> (view option, 'd) prog" where
  "find_confirm_button V db =
     thn (block [touch V db, sleep 1000, dump V]) (findViewById V CONFIRM_ID)"

section \<open>Simulated environments\<close>

text \<open>
  Concrete inputs on which the theorems below are exercised: a stand-in for the phone
  number library that accepts a plus sign followed by digits, blanks and dashes, and a few
  file systems.
\<close>

definition lib0 :: "string phonenumbers" where
  "lib0 = \<lparr> parse = (\<lambda>s. case s of
                         [] \<Rightarrow> None
                       | c # cs \<Rightarrow>
                           if c = CHR ''+'' \<and> cs \<noteq> [] \<and> list_all (\<lambda>x. x \<in> set ''0123456789 -'') cs
                           then Some (filter (\<lambda>x. x \<in> set ''0123456789'') cs) else None),
             format_number_E164 = (\<lambda>n. CHR ''+'' # n) \<rparr>"

definition numbers0 :: "string list" where
  "numbers0 = [''+1 415 555 0101'' @ [CHR 0x0A], [CHR 0x0A], ''hello'' @ [CHR 0x0A],
               ''  +14155550100  '' @ [CHR 0x0A], ''+1-415-555-0101'']"

definition content0 :: "string list" where
  "content0 = [''  Hello there '' @ [CHR 0x0A], ''second line'' @ [CHR 0x0A]]"

definition fs0 :: filesystem where
  "fs0 = (\<lambda>p. if p = ''numbers.txt'' then Some numbers0
              else if p = ''content.txt'' then Some content0 else None)"

text \<open>No input file at all.\<close>

definition fs_none :: filesystem where
  "fs_none = (\<lambda>p. None)"

text \<open>A numbers file without a single valid number.\<close>

definition fs_junk :: filesystem where
  "fs_junk = (\<lambda>p. if p = ''numbers.txt'' then Some [''hello'' @ [CHR 0x0A], [CHR 0x0A]]
                  else if p = ''content.txt'' then Some content0 else None)"

text \<open>A numbers file and no content file.\<close>

definition fs_numbers_only :: filesystem where
  "fs_numbers_only = (\<lambda>p. if p = ''numbers.txt'' then Some numbers0 else None)"

text \<open>A content file whose first line is blank and whose second line is not.\<close>

definition blank_first :: "string list" where
  "blank_first = [''   '' @ [CHR 0x0A], ''Hello'' @ [CHR 0x0A]]"

definition fs_blank :: filesystem where
  "fs_blank = (\<lambda>p. if p = ''numbers.txt'' then Some numbers0
                   else if p = ''content.txt'' then Some blank_first else None)"

text \<open>
  Two devices. On \<open>offline\<close> every call raises. \<open>phone lo hi\<close> never raises; its state counts
  the snapshots taken so far, and the start-chat button is absent, by id and by text,
  while that count is at least \<open>lo\<close> and below \<open>hi\<close>. Every other affordance is present, and
  there is no suggestion list and no on-screen Back button.
\<close>

definition offline :: "unit view_client" where
  "offline = \<lparr> vc_connect = (\<lambda>s d. (Inl ''device offline'', d)),
               vc_dump = (\<lambda>d. (Inl ''device offline'', d)),
               vc_findViewById = (\<lambda>i d. (Inl ''device offline'', d)),
               vc_findViewsContainingText = (\<lambda>t d. (Inl ''device offline'', d)),
               vc_findViewsWithContentDescriptionRe = (\<lambda>t d. (Inl ''device offline'', d)),
               vc_findViewsWithAttribute = (\<lambda>a b d. (Inl ''device offline'', d)),
               vc_touch = (\<lambda>v d. (Inl ''device offline'', d)),
               vc_shell = (\<lambda>c d. (Inl ''device offline'', d)),
               vc_drag = (\<lambda>a b t n d. (Inl ''device offline'', d)) \<rparr>"

definition button :: "string \<Rightarrow> view" where
  "button i = \<lparr> uniqueId = i, getText = [], getXY = (540, 960) \<rparr>"

definition phone :: "nat \<Rightarrow> nat \<Rightarrow> nat view_client" where
  "phone lo hi =
     \<lparr> vc_connect = (\<lambda>s d. (Inr (), d)),
       vc_dump = (\<lambda>d. (Inr (), d + 1)),
       vc_findViewById = (\<lambda>i d. (Inr (if i = START_CHAT_ID \<and> lo \<le> d \<and> d < hi then None
                                      else if i = CONTACT_SUGGESTION_SELECTOR then None
                                      else Some (button i)), d)),
       vc_findViewsContainingText = (\<lambda>t d. (Inr [], d)),
       vc_findViewsWithContentDescriptionRe = (\<lambda>t d. (Inr [], d)),
       vc_findViewsWithAttribute = (\<lambda>a b d. (Inr [], d)),
       vc_touch = (\<lambda>v d. (Inr (), d)),
       vc_shell = (\<lambda>c d. (Inr (), d)),
       vc_drag = (\<lambda>a b t n d. (Inr (), d)) \<rparr>"

text \<open>The text of the success rate is immaterial here.\<close>

definition pct0 :: "nat \<Rightarrow> nat \<Rightarrow> string" where
  "pct0 c n = ''?''"

text \<open>On \<open>blind\<close> taking a snapshot raises; every other call goes through and finds nothing.\<close>

definition blind :: "unit view_client" where
  "blind = \<lparr> vc_connect = (\<lambda>s d. (Inr (), d)),
             vc_dump = (\<lambda>d. (Inl ''snapshot failed'', d)),
             vc_findViewById = (\<lambda>i d. (Inr None, d)),
             vc_findViewsContainingText = (\<lambda>t d. (Inr [], d)),
             vc_findViewsWithContentDescriptionRe = (\<lambda>t d. (Inr [], d)),
             vc_findViewsWithAttribute = (\<lambda>a b d. (Inr [], d)),
             vc_touch = (\<lambda>v d. (Inr (), d)),
             vc_shell = (\<lambda>c d. (Inr (), d)),
             vc_drag = (\<lambda>a b t n d. (Inr (), d)) \<rparr>"

text \<open>
  \<open>dropout k\<close> counts the calls made to it. The first \<open>k\<close> calls go through, with every
  affordance present and no suggestion list; from then on every call raises: the device
  has dropped off.
\<close>

definition dropout :: "nat \<Rightarrow> nat view_client" where
  "dropout k =
     \<lparr> vc_connect = (\<lambda>s d. (if d < k then Inr () else Inl ''device offline'', d + 1)),
       vc_dump = (\<lambda>d. (if d < k then Inr () else Inl ''device offline'', d + 1)),
       vc_findViewById =
         (\<lambda>i d. (if d < k then Inr (if i = CONTACT_SUGGESTION_SELECTOR then None
                                     else Some (button i))
                   else Inl ''device offline'', d + 1)),
       vc_findViewsContainingText = (\<lambda>t d. (if d < k then Inr [] else Inl ''device offline'', d + 1)),
       vc_findViewsWithContentDescriptionRe =
         (\<lambda>t d. (if d < k then Inr [] else Inl ''device offline'', d + 1)),
       vc_findViewsWithAttribute =
         (\<lambda>a b d. (if d < k then Inr [] else Inl ''device offline'', d + 1)),
       vc_touch = (\<lambda>v d. (if d < k then Inr () else Inl ''device offline'', d + 1)),
       vc_shell = (\<lambda>c d. (if d < k then Inr () else Inl ''device offline'', d + 1)),
       vc_drag = (\<lambda>a b t n d. (if d < k then Inr () else Inl ''device offline'', d + 1)) \<rparr>"

text \<open>A numbers file with five recipients, and a file system with it.\<close>

definition numbers5 :: "string list" where
  "numbers5 = [''+14155550101'' @ [CHR 0x0A], ''+14155550102'' @ [CHR 0x0A],
               ''+14155550103'' @ [CHR 0x0A], ''+14155550104'' @ [CHR 0x0A],
               ''+14155550105'' @ [CHR 0x0A]]"

definition fs5 :: filesystem where
  "fs5 = (\<lambda>p. if p = ''numbers.txt'' then Some numbers5
              else if p = ''content.txt'' then Some content0 else None)"

text \<open>On \<open>bare\<close> no call raises and no lookup finds anything: an empty screen.\<close>

definition bare :: "unit view_client" where
  "bare = \<lparr> vc_connect = (\<lambda>s d. (Inr (), d)),
            vc_dump = (\<lambda>d. (Inr (), d)),
            vc_findViewById = (\<lambda>i d. (Inr None, d)),
            vc_findViewsContainingText = (\<lambda>t d. (Inr [], d)),
            vc_findViewsWithContentDescriptionRe = (\<lambda>t d. (Inr [], d)),
            vc_findViewsWithAttribute = (\<lambda>a b d. (Inr [], d)),
            vc_touch = (\<lambda>v d. (Inr (), d)),
            vc_shell = (\<lambda>c d. (Inr (), d)),
            vc_drag = (\<lambda>a b t n d. (Inr (), d)) \<rparr>"

text \<open>
  On \<open>showing ids\<close> no call raises, and a lookup by id finds a view exactly for the ids
  listed: a screen on which only these affordances are present.
\<close>

definition showing :: "string list \<Rightarrow> unit view_client" where
  "showing ids =
     \<lparr> vc_connect = (\<lambda>s d. (Inr (), d)),
       vc_dump = (\<lambda>d. (Inr (), d)),
       vc_findViewById = (\<lambda>i d. (Inr (if i \<in> set ids then Some (button i) else None), d)),
       vc_findViewsContainingText = (\<lambda>t d. (Inr [], d)),
       vc_findViewsWithContentDescriptionRe = (\<lambda>t d. (Inr [], d)),
       vc_findViewsWithAttribute = (\<lambda>a b d. (Inr [], d)),
       vc_touch = (\<lambda>v d. (Inr (), d)),
       vc_shell = (\<lambda>c d. (Inr (), d)),
       vc_drag = (\<lambda>a b t n d. (Inr (), d)) \<rparr>"

section \<open>The input loader\<close>

lemma add_numbers_eq:
  "add_numbers L ls S =
     S \<union> {format_number_E164 L n | l n. l \<in> set ls \<and> l \<noteq> [] \<and> parse L l = Some n}"
  by (induction ls arbitrary: S) (auto split: option.splits)

lemma add_numbers_valid: "add_numbers L (map strip f) {} = valid_numbers L f"
  unfolding add_numbers_eq valid_numbers_def by force

lemma finite_valid_numbers: "finite (valid_numbers L f)"
  unfolding valid_numbers_def by simp

lemma get_phone_numbers_cases:
  "fs p = Some f \<Longrightarrow>
   get_phone_numbers L fs p =
     (if valid_numbers L f = {} then (Inl 2, [Echo_err ''Oops, no valid phone numbers!''])
      else (Inr (sorted_list_of_set (valid_numbers L f)), []))"
  by (simp add: get_phone_numbers_def add_numbers_valid)

text \<open>
  C3. When at least one line of the numbers file is, once stripped, a non-empty text that
  the parser accepts, \<open>get_phone_numbers\<close> returns a list without raising or exiting; the
  list is not empty, has no duplicates, is sorted in ascending lexicographic order, and
  its elements are exactly the E164 forms of the accepted lines, so that the lines the
  parser rejects leave no trace.
\<close>

theorem get_phone_numbers_sorted_unique:
  assumes "fs file_path = Some f"
    and "\<exists>l \<in> set f. strip l \<noteq> [] \<and> parse L (strip l) \<noteq> None"
  shows "\<exists>ns. get_phone_numbers L fs file_path = (Inr ns, [])
            \<and> ns \<noteq> [] \<and> distinct ns \<and> sorted ns \<and> set ns = valid_numbers L f"
proof -
  from assms(2) have ne: "valid_numbers L f \<noteq> {}"
    unfolding valid_numbers_def by auto
  have "get_phone_numbers L fs file_path = (Inr (sorted_list_of_set (valid_numbers L f)), [])"
    using assms(1) ne by (simp add: get_phone_numbers_cases)
  moreover have "sorted_list_of_set (valid_numbers L f) \<noteq> []"
    using ne finite_valid_numbers [of L f] by simp
  ultimately show ?thesis
    using finite_valid_numbers [of L f] by simp
qed

theorem get_phone_numbers_sorted_unique_witness:
  "fs0 ''numbers.txt'' = Some numbers0
   \<and> (\<exists>l \<in> set numbers0. strip l \<noteq> [] \<and> parse lib0 (strip l) \<noteq> None)
   \<and> (\<exists>ns. get_phone_numbers lib0 fs0 ''numbers.txt'' = (Inr ns, [])
          \<and> ns \<noteq> [] \<and> distinct ns \<and> sorted ns \<and> set ns = valid_numbers lib0 numbers0)
   \<and> get_phone_numbers lib0 fs0 ''numbers.txt'' = (Inr [''+14155550100'', ''+14155550101''], [])"
proof -
  have h1: "fs0 ''numbers.txt'' = Some numbers0"
    by (simp add: fs0_def)
  have h2: "\<exists>l \<in> set numbers0. strip l \<noteq> [] \<and> parse lib0 (strip l) \<noteq> None"
    by (simp add: numbers0_def lib0_def strip_def isspace_def)
  have h3: "get_phone_numbers lib0 fs0 ''numbers.txt'' = (Inr [''+14155550100'', ''+14155550101''], [])"
    by code_simp
  show ?thesis
    using h1 h2 h3 get_phone_numbers_sorted_unique [of fs0 "''numbers.txt''" numbers0 lib0]
    by blast
qed

text \<open>
  C4. The startup exit codes. \<open>get_phone_numbers\<close> exits with 1 when its file is missing
  and with 2 when the file holds no valid number; \<open>get_message\<close> exits with 1 when its file
  is missing and with 3 when the first line is empty or blank. In \<open>main\<close> the numbers file
  is read first, then the content file, and each of the four conditions ends the process
  at once with that code: the only events are the banner and the line written to standard
  error, and the device is left untouched.
\<close>

theorem startup_exit_codes:
  "(fs p = None \<longrightarrow>
      get_phone_numbers L fs p = (Inl 1, [Echo_err (''Oops, file not found: '' @ p)])
      \<and> get_message fs p = (Inl 1, [Echo_err (''Oops, file not found: '' @ p)]))
   \<and> (fs p = Some f \<and> valid_numbers L f = {} \<longrightarrow>
      get_phone_numbers L fs p = (Inl 2, [Echo_err ''Oops, no valid phone numbers!'']))
   \<and> (fs p = Some g \<and> strip (readline g) = [] \<longrightarrow>
      get_message fs p = (Inl 3, [Echo_err ''Content file is empty!'']))
   \<and> (fs ''numbers.txt'' = None \<longrightarrow>
      main L fs pct V serialno draft delete delay d =
        (1, header @ [Echo_err ''Oops, file not found: numbers.txt''], d))
   \<and> (fs ''numbers.txt'' = Some f \<and> valid_numbers L f = {} \<longrightarrow>
      main L fs pct V serialno draft delete delay d =
        (2, header @ [Echo_err ''Oops, no valid phone numbers!''], d))
   \<and> (fs ''numbers.txt'' = Some f \<and> valid_numbers L f \<noteq> {} \<and> fs ''content.txt'' = None \<longrightarrow>
      main L fs pct V serialno draft delete delay d =
        (1, header @ [Echo_err ''Oops, file not found: content.txt''], d))
   \<and> (fs ''numbers.txt'' = Some f \<and> valid_numbers L f \<noteq> {} \<and> fs ''content.txt'' = Some g
        \<and> strip (readline g) = [] \<longrightarrow>
      main L fs pct V serialno draft delete delay d =
        (3, header @ [Echo_err ''Content file is empty!''], d))"
proof -
  have a: "fs p = None \<longrightarrow>
      get_phone_numbers L fs p = (Inl 1, [Echo_err (''Oops, file not found: '' @ p)])
      \<and> get_message fs p = (Inl 1, [Echo_err (''Oops, file not found: '' @ p)])"
    by (simp add: get_phone_numbers_def get_message_def)
  have b: "fs p = Some f \<and> valid_numbers L f = {} \<longrightarrow>
      get_phone_numbers L fs p = (Inl 2, [Echo_err ''Oops, no valid phone numbers!''])"
    by (simp add: get_phone_numbers_cases)
  have c: "fs p = Some g \<and> strip (readline g) = [] \<longrightarrow>
      get_message fs p = (Inl 3, [Echo_err ''Content file is empty!''])"
    by (simp add: get_message_def)
  have d1: "fs ''numbers.txt'' = None \<longrightarrow>
      main L fs pct V serialno draft delete delay d =
        (1, header @ [Echo_err ''Oops, file not found: numbers.txt''], d)"
    by (simp add: main_def startup_def get_phone_numbers_def)
  have d2: "fs ''numbers.txt'' = Some f \<and> valid_numbers L f = {} \<longrightarrow>
      main L fs pct V serialno draft delete delay d =
        (2, header @ [Echo_err ''Oops, no valid phone numbers!''], d)"
    by (simp add: main_def startup_def get_phone_numbers_cases)
  have d3: "fs ''numbers.txt'' = Some f \<and> valid_numbers L f \<noteq> {} \<and> fs ''content.txt'' = None \<longrightarrow>
      main L fs pct V serialno draft delete delay d =
        (1, header @ [Echo_err ''Oops, file not found: content.txt''], d)"
    by (simp add: main_def startup_def get_phone_numbers_cases get_message_def)
  have d4: "fs ''numbers.txt'' = Some f \<and> valid_numbers L f \<noteq> {} \<and> fs ''content.txt'' = Some g
        \<and> strip (readline g) = [] \<longrightarrow>
      main L fs pct V serialno draft delete delay d =
        (3, header @ [Echo_err ''Content file is empty!''], d)"
    by (simp add: main_def startup_def get_phone_numbers_cases get_message_def)
  from a b c d1 d2 d3 d4 show ?thesis by blast
qed

theorem startup_exit_codes_witness:
  "fs_none ''numbers.txt'' = None
   \<and> main lib0 fs_none pct0 offline None False False 5 () =
       (1, header @ [Echo_err ''Oops, file not found: numbers.txt''], ())
   \<and> get_message fs_none ''content.txt'' = (Inl 1, [Echo_err ''Oops, file not found: content.txt''])
   \<and> fs_junk ''numbers.txt'' = Some [''hello'' @ [CHR 0x0A], [CHR 0x0A]]
   \<and> valid_numbers lib0 [''hello'' @ [CHR 0x0A], [CHR 0x0A]] = {}
   \<and> main lib0 fs_junk pct0 offline None False False 5 () =
       (2, header @ [Echo_err ''Oops, no valid phone numbers!''], ())
   \<and> fs_numbers_only ''numbers.txt'' = Some numbers0 \<and> fs_numbers_only ''content.txt'' = None
   \<and> main lib0 fs_numbers_only pct0 offline None False False 5 () =
       (1, header @ [Echo_err ''Oops, file not found: content.txt''], ())
   \<and> fs_blank ''numbers.txt'' = Some numbers0 \<and> valid_numbers lib0 numbers0 \<noteq> {}
   \<and> fs_blank ''content.txt'' = Some blank_first \<and> strip (readline blank_first) = []
   \<and> main lib0 fs_blank pct0 offline None False False 5 () =
       (3, header @ [Echo_err ''Content file is empty!''], ())
   \<and> get_message fs_blank ''content.txt'' = (Inl 3, [Echo_err ''Content file is empty!''])"
proof -
  have n: "fs_none ''numbers.txt'' = None" "fs_none ''content.txt'' = None"
    by (simp_all add: fs_none_def)
  have j: "fs_junk ''numbers.txt'' = Some [''hello'' @ [CHR 0x0A], [CHR 0x0A]]"
    by (simp add: fs_junk_def)
  have jv: "valid_numbers lib0 [''hello'' @ [CHR 0x0A], [CHR 0x0A]] = {}"
    by (simp add: valid_numbers_def lib0_def strip_def isspace_def)
  have b: "fs_blank ''numbers.txt'' = Some numbers0" "fs_blank ''content.txt'' = Some blank_first"
    by (simp_all add: fs_blank_def)
  have bv: "valid_numbers lib0 numbers0 \<noteq> {}"
    by (simp add: valid_numbers_def lib0_def numbers0_def strip_def isspace_def)
  have bl: "strip (readline blank_first) = []"
    by (simp add: blank_first_def readline_def strip_def isspace_def)
  have o: "fs_numbers_only ''numbers.txt'' = Some numbers0" "fs_numbers_only ''content.txt'' = None"
    by (simp_all add: fs_numbers_only_def)
  show ?thesis
    using n j jv b bv bl o
      startup_exit_codes [of fs_numbers_only "''content.txt''" lib0 numbers0 _
                             pct0 offline None False False 5 "()"]
      startup_exit_codes [of fs_none "''numbers.txt''" lib0 _ _ pct0 offline None False False 5 "()"]
      startup_exit_codes [of fs_none "''content.txt''" lib0 _ _ pct0 offline None False False 5 "()"]
      startup_exit_codes [of fs_junk "''numbers.txt''" lib0 "[''hello'' @ [CHR 0x0A], [CHR 0x0A]]"
                             _ pct0 offline None False False 5 "()"]
      startup_exit_codes [of fs_blank "''content.txt''" lib0 numbers0 blank_first
                             pct0 offline None False False 5 "()"]
    by simp
qed

text \<open>
  C5, as the specification words it, fails: \<open>get_message\<close> reads the first line, blank or
  not. On a content file whose first line is blank and whose second line is \<open>Hello\<close>, the
  first non-blank line is \<open>Hello\<close>, and the function exits with code 3.
\<close>

theorem get_message_first_non_blank_counterexample:
  "spec_first_non_blank_line blank_first = Some ''Hello''
   \<and> get_message fs_blank ''content.txt'' = (Inl 3, [Echo_err ''Content file is empty!''])"
  by (simp add: spec_first_non_blank_line_def blank_first_def get_message_def fs_blank_def
      readline_def strip_def isspace_def)

text \<open>
  C5, amended. \<open>get_message\<close> takes the message from the first line of the content file,
  stripped of surrounding whitespace, whatever follows that line: when the stripped first
  line is not empty it is returned, and when it is empty (also when the file has no line
  at all) the function exits with code 3, even if a later line has text.
\<close>

theorem get_message_first_line:
  "(fs p = Some (line # rest) \<longrightarrow>
      get_message fs p =
        (if strip line = [] then (Inl 3, [Echo_err ''Content file is empty!''])
         else (Inr (strip line), [])))
   \<and> (fs p = Some [] \<longrightarrow> get_message fs p = (Inl 3, [Echo_err ''Content file is empty!'']))"
  by (simp add: get_message_def readline_def strip_def)

theorem get_message_first_line_witness:
  "fs0 ''content.txt'' = Some ((''  Hello there '' @ [CHR 0x0A]) # [''second line'' @ [CHR 0x0A]])
   \<and> get_message fs0 ''content.txt'' = (Inr ''Hello there'', [])
   \<and> fs_blank ''content.txt'' = Some ((''   '' @ [CHR 0x0A]) # [''Hello'' @ [CHR 0x0A]])
   \<and> get_message fs_blank ''content.txt'' = (Inl 3, [Echo_err ''Content file is empty!''])"
proof -
  have a: "fs0 ''content.txt'' = Some ((''  Hello there '' @ [CHR 0x0A]) # [''second line'' @ [CHR 0x0A]])"
    by (simp add: fs0_def content0_def)
  have b: "fs_blank ''content.txt'' = Some ((''   '' @ [CHR 0x0A]) # [''Hello'' @ [CHR 0x0A]])"
    by (simp add: fs_blank_def blank_first_def)
  have s: "strip (''  Hello there '' @ [CHR 0x0A]) = ''Hello there''" "strip (''   '' @ [CHR 0x0A]) = []"
    by (simp_all add: strip_def isspace_def)
  show ?thesis
    using a b s
      get_message_first_line [of fs0 "''content.txt''" "''  Hello there '' @ [CHR 0x0A]"
                                 "[''second line'' @ [CHR 0x0A]]"]
      get_message_first_line [of fs_blank "''content.txt''" "''   '' @ [CHR 0x0A]"
                                 "[''Hello'' @ [CHR 0x0A]]"]
    by simp
qed

section \<open>Programs and their events\<close>

lemma result_simps [simp]: "result (r, es, d) = r"
  by (simp add: result_def)
lemma events_simps [simp]: "events (r, es, d) = es"
  by (simp add: events_def)
lemma final_simps [simp]: "final (r, es, d) = d"
  by (simp add: final_def)

lemma result_after [simp]: "result (after es r) = result r"
  by (cases r) simp

lemma events_after [simp]: "events (after es r) = es @ events r"
  by (cases r) simp

lemma final_after [simp]: "final (after es r) = final r"
  by (cases r) simp

lemma emitsD: "emits P m \<Longrightarrow> list_all P (events (m d))"
  by (simp add: emits_def)

lemma emits_ret [emits_intros]: "emits P (ret x)"
  by (simp add: emits_def ret_def)

lemma emits_raise [emits_intros]: "emits P (raise e)"
  by (simp add: emits_def raise_def)

lemma emits_emit: "P ev \<Longrightarrow> emits P (emit ev)"
  by (simp add: emits_def emit_def)

lemma emits_print [emits_intros]: "P (Print s) \<Longrightarrow> emits P (print s)"
  by (simp add: print_def emits_emit)

lemma emits_sleep [emits_intros]: "P (Sleep ms) \<Longrightarrow> emits P (sleep ms)"
  by (simp add: sleep_def emits_emit emits_raise)

lemma events_call [simp]: "events (call ev f d) = [ev]"
  by (cases "f d") (auto simp: call_def split: sum.splits)

lemma emits_call: "P ev \<Longrightarrow> emits P (call ev f)"
  by (simp add: emits_def)

lemma emits_bnd [emits_intros]:
  assumes "emits P m" and "\<And>x. emits P (f x)"
  shows "emits P (bnd m f)"
  unfolding emits_def
proof
  fix d
  obtain r es d' where md: "m d = (r, es, d')"
    by (cases "m d") auto
  from assms(1) md have es: "list_all P es"
    by (auto dest: emitsD [where d = d])
  show "list_all P (events (bnd m f d))"
  proof (cases r)
    case (Inl e)
    with md es show ?thesis by (simp add: bnd_def)
  next
    case (Inr x)
    with md es assms(2) [of x] show ?thesis
      by (simp add: bnd_def emits_def)
  qed
qed

lemma emits_thn [emits_intros]: "emits P m \<Longrightarrow> emits P n \<Longrightarrow> emits P (thn m n)"
  by (simp add: thn_def emits_bnd)

lemma emits_try [emits_intros]:
  assumes "emits P m" and "\<And>e. emits P (h e)"
  shows "emits P (try_except m h)"
  unfolding emits_def
proof
  fix d
  obtain r es d' where md: "m d = (r, es, d')"
    by (cases "m d") auto
  from assms(1) md have es: "list_all P es"
    by (auto dest: emitsD [where d = d])
  show "list_all P (events (try_except m h d))"
  proof (cases r)
    case (Inl e)
    with md es assms(2) [of e] show ?thesis
      by (simp add: try_except_def emits_def)
  next
    case (Inr x)
    with md es show ?thesis by (simp add: try_except_def)
  qed
qed

lemma emits_block_Nil [emits_intros]: "emits P (block [])"
  by (simp add: emits_ret)

lemma emits_block_Cons [emits_intros]:
  "emits P m \<Longrightarrow> emits P (block ms) \<Longrightarrow> emits P (block (m # ms))"
  by (simp add: emits_thn)

lemma emits_repeat [emits_intros]: "emits P m \<Longrightarrow> emits P (repeat n m)"
  by (induction n) (simp_all add: emits_ret emits_thn)

lemma emits_if [emits_intros]:
  "(c \<Longrightarrow> emits P a) \<Longrightarrow> (\<not> c \<Longrightarrow> emits P b) \<Longrightarrow> emits P (if c then a else b)"
  by simp

lemma emits_case_option [emits_intros]:
  "emits P a \<Longrightarrow> (\<And>v. emits P (b v)) \<Longrightarrow> emits P (case x of None \<Rightarrow> a | Some v \<Rightarrow> b v)"
  by (cases x) simp_all

lemma emits_case_list [emits_intros]:
  "emits P a \<Longrightarrow> (\<And>v vs. emits P (b v vs)) \<Longrightarrow> emits P (case x of [] \<Rightarrow> a | v # vs \<Rightarrow> b v vs)"
  by (cases x) simp_all

lemma emits_case_flow [emits_intros]:
  "emits P a \<Longrightarrow> (\<And>v. emits P (b v)) \<Longrightarrow> emits P (case x of Continue \<Rightarrow> a | Return v \<Rightarrow> b v)"
  by (cases x) simp_all

lemma emits_dump [emits_intros]: "P Dump \<Longrightarrow> emits P (dump V)"
  by (simp add: dump_def emits_call)

lemma emits_findViewById [emits_intros]: "P (FindViewById i) \<Longrightarrow> emits P (findViewById V i)"
  by (simp add: findViewById_def emits_call)

lemma emits_findViewsContainingText [emits_intros]:
  "P (FindViewsContainingText t) \<Longrightarrow> emits P (findViewsContainingText V t)"
  by (simp add: findViewsContainingText_def emits_call)

lemma emits_findViewsWithContentDescriptionRe [emits_intros]:
  "P (FindViewsWithContentDescriptionRe t) \<Longrightarrow> emits P (findViewsWithContentDescriptionRe V t)"
  by (simp add: findViewsWithContentDescriptionRe_def emits_call)

lemma emits_findViewsWithAttribute [emits_intros]:
  "P (FindViewsWithAttribute a b) \<Longrightarrow> emits P (findViewsWithAttribute V a b)"
  by (simp add: findViewsWithAttribute_def emits_call)

lemma emits_touch [emits_intros]: "P (Touch v) \<Longrightarrow> emits P (touch V v)"
  by (simp add: touch_def emits_call)

lemma emits_shell [emits_intros]: "P (Shell c) \<Longrightarrow> emits P (shell V c)"
  by (simp add: shell_def emits_call)

lemma emits_drag [emits_intros]: "P (Drag a b t n) \<Longrightarrow> emits P (drag V a b t n)"
  by (simp add: drag_def emits_call)

lemma emits_connect [emits_intros]: "P (Connect s) \<Longrightarrow> emits P (connect V s)"
  by (simp add: connect_def emits_call)

lemma run_bnd:
  "result (bnd m f d) = (case result (m d) of Inl e \<Rightarrow> Inl e | Inr x \<Rightarrow> result (f x (final (m d))))"
  "events (bnd m f d) =
     events (m d) @ (case result (m d) of Inl e \<Rightarrow> [] | Inr x \<Rightarrow> events (f x (final (m d))))"
  "final (bnd m f d) = (case result (m d) of Inl e \<Rightarrow> final (m d) | Inr x \<Rightarrow> final (f x (final (m d))))"
  by (cases "m d"; cases "fst (m d)"; simp add: bnd_def)+

lemma run_thn:
  "result (thn m n d) = (case result (m d) of Inl e \<Rightarrow> Inl e | Inr x \<Rightarrow> result (n (final (m d))))"
  "events (thn m n d) =
     events (m d) @ (case result (m d) of Inl e \<Rightarrow> [] | Inr x \<Rightarrow> events (n (final (m d))))"
  "final (thn m n d) = (case result (m d) of Inl e \<Rightarrow> final (m d) | Inr x \<Rightarrow> final (n (final (m d))))"
  by (simp_all add: thn_def run_bnd)

lemma run_try_except:
  "result (try_except m h d) = (case result (m d) of Inl e \<Rightarrow> result (h e (final (m d))) | Inr x \<Rightarrow> Inr x)"
  "events (try_except m h d) =
     events (m d) @ (case result (m d) of Inl e \<Rightarrow> events (h e (final (m d))) | Inr x \<Rightarrow> [])"
  "final (try_except m h d) = (case result (m d) of Inl e \<Rightarrow> final (h e (final (m d))) | Inr x \<Rightarrow> final (m d))"
  by (cases "m d"; cases "fst (m d)"; simp add: try_except_def)+

lemma run_ret [simp]: "result (ret x d) = Inr x" "events (ret x d) = []" "final (ret x d) = d"
  by (simp_all add: ret_def)

lemma run_raise [simp]: "result (raise e d) = Inl e" "events (raise e d) = []" "final (raise e d) = d"
  by (simp_all add: raise_def)

lemma run_emit [simp]: "result (emit ev d) = Inr ()" "events (emit ev d) = [ev]" "final (emit ev d) = d"
  by (simp_all add: emit_def)

lemma run_print [simp]:
  "result (print s d) = Inr ()" "events (print s d) = [Print s]" "final (print s d) = d"
  by (simp_all add: print_def)

lemma run_sleep [simp]:
  "0 \<le> ms \<Longrightarrow> result (sleep ms d) = Inr ()"
  "0 \<le> ms \<Longrightarrow> events (sleep ms d) = [Sleep ms]"
  "final (sleep ms d) = d"
  by (simp_all add: sleep_def)

lemma run_call:
  "result (call ev f d) = (case fst (f d) of Inl m \<Rightarrow> Inl (LibraryError m) | Inr x \<Rightarrow> Inr x)"
  "final (call ev f d) = snd (f d)"
  by (cases "f d"; cases "fst (f d)"; simp add: call_def)+

lemmas run_simps = run_bnd run_thn run_try_except run_call

section \<open>Draft-only mode\<close>

lemma ensuresD: "ensures Q m \<Longrightarrow> m d = (Inr x, es, d') \<Longrightarrow> Q x es"
  by (auto simp: ensures_def split: prod.splits sum.splits dest: spec [where x = d])

lemma stableD: "stable Q \<Longrightarrow> Q x es \<Longrightarrow> Q x (es' @ es)"
  by (simp add: stable_def)

lemma ensures_ret: "Q x [] \<Longrightarrow> ensures Q (ret x)"
  by (simp add: ensures_def ret_def)

lemma ensures_raise: "ensures Q (raise x)"
  by (simp add: ensures_def raise_def)

lemma ensures_bnd:
  assumes "\<And>x. ensures Q (f x)" and "stable Q"
  shows "ensures Q (bnd m f)"
  unfolding ensures_def
proof
  fix d
  obtain r es d' where md: "m d = (r, es, d')"
    by (cases "m d") auto
  show "case bnd m f d of (Inr x, es, d') \<Rightarrow> Q x es | (Inl e, es, d') \<Rightarrow> True"
  proof (cases r)
    case (Inl e)
    with md show ?thesis by (simp add: bnd_def)
  next
    case (Inr x)
    obtain r' es' d'' where fd: "f x d' = (r', es', d'')"
      by (cases "f x d'") auto
    with md Inr ensuresD [OF assms(1), of x d' _ es' d''] stableD [OF assms(2)] show ?thesis
      by (cases r') (auto simp: bnd_def)
  qed
qed

lemma ensures_thn: "ensures Q n \<Longrightarrow> stable Q \<Longrightarrow> ensures Q (thn m n)"
  by (simp add: thn_def ensures_bnd)

lemma ensures_try:
  assumes "ensures Q m" and "\<And>e. ensures Q (h e)" and "stable Q"
  shows "ensures Q (try_except m h)"
  unfolding ensures_def
proof
  fix d
  obtain r es d' where md: "m d = (r, es, d')"
    by (cases "m d") auto
  show "case try_except m h d of (Inr x, es, d') \<Rightarrow> Q x es | (Inl e, es, d') \<Rightarrow> True"
  proof (cases r)
    case (Inr x)
    with md ensuresD [OF assms(1), of d x es d'] show ?thesis
      by (auto simp: try_except_def)
  next
    case (Inl e)
    obtain r' es' d'' where hd: "h e d' = (r', es', d'')"
      by (cases "h e d'") auto
    with md Inl ensuresD [OF assms(2), of e d' _ es' d''] stableD [OF assms(3)] show ?thesis
      by (cases r') (auto simp: try_except_def)
  qed
qed

lemma ensures_case_option:
  "ensures Q a \<Longrightarrow> (\<And>v. ensures Q (b v)) \<Longrightarrow>
   ensures Q (case x of None \<Rightarrow> a | Some v \<Rightarrow> b v)"
  by (cases x) simp_all

lemma ensures_case_list:
  "ensures Q a \<Longrightarrow> (\<And>v vs. ensures Q (b v vs)) \<Longrightarrow>
   ensures Q (case x of [] \<Rightarrow> a | v # vs \<Rightarrow> b v vs)"
  by (cases x) simp_all

lemma ensures_block_Cons:
  "ensures Q (block ms) \<Longrightarrow> stable Q \<Longrightarrow> ensures Q (block (m # ms))"
  by (simp add: ensures_thn)

lemma bnd_Inr_iff:
  "bnd m f d = (Inr y, es, d'') \<longleftrightarrow>
     (\<exists>x es1 d' es2. m d = (Inr x, es1, d') \<and> f x d' = (Inr y, es2, d'') \<and> es = es1 @ es2)"
proof (cases "m d")
  case (fields r es1 d')
  show ?thesis
  proof (cases r)
    case (Inl e)
    with fields show ?thesis by (simp add: bnd_def)
  next
    case (Inr x)
    with fields show ?thesis
      by (cases "f x d'") (auto simp: bnd_def)
  qed
qed

lemma thn_Inr_iff:
  "thn m n d = (Inr y, es, d'') \<longleftrightarrow>
     (\<exists>x es1 d' es2. m d = (Inr x, es1, d') \<and> n d' = (Inr y, es2, d'') \<and> es = es1 @ es2)"
  by (simp add: thn_def bnd_Inr_iff)

lemma ret_iff: "ret x d = (r, es, d') \<longleftrightarrow> r = Inr x \<and> es = [] \<and> d' = d"
  by (auto simp: ret_def)

lemma raise_iff: "raise e d = (r, es, d') \<longleftrightarrow> r = Inl e \<and> es = [] \<and> d' = d"
  by (auto simp: raise_def)

lemma emit_iff: "emit ev d = (r, es, d') \<longleftrightarrow> r = Inr () \<and> es = [ev] \<and> d' = d"
  by (auto simp: emit_def)

lemma print_iff: "print s d = (r, es, d') \<longleftrightarrow> r = Inr () \<and> es = [Print s] \<and> d' = d"
  by (simp add: print_def emit_iff)

lemma sleep_Inr_iff: "sleep ms d = (Inr u, es, d') \<longleftrightarrow> 0 \<le> ms \<and> es = [Sleep ms] \<and> d' = d"
  by (auto simp: sleep_def emit_iff raise_iff)

lemma call_Inr_iff: "call ev f d = (Inr x, es, d') \<longleftrightarrow> f d = (Inr x, d') \<and> es = [ev]"
  by (cases "f d") (auto simp: call_def split: sum.splits)

lemmas prim_defs = dump_def findViewById_def findViewsContainingText_def
  findViewsWithContentDescriptionRe_def findViewsWithAttribute_def touch_def shell_def drag_def
  connect_def

lemmas Inr_iffs = bnd_Inr_iff thn_Inr_iff ret_iff raise_iff emit_iff print_iff sleep_Inr_iff call_Inr_iff

lemma type_message_events:
  "type_message V m d = (Inr u, es, d') \<Longrightarrow>
   es = [Sleep 2000, Dump, Print (''Typing message: '' @ m), Shell (''input text '' @ quote m), Sleep 2000]"
  by (auto simp: type_message_def prim_defs Inr_iffs)

lemma ensures_thn_ret:
  "ensures (\<lambda>u. Q x) m \<Longrightarrow> ensures Q (thn m (ret x))"
  unfolding ensures_def
  by (auto simp: Inr_iffs split: prod.splits sum.splits dest: spec)

lemma stable_draft_flow: "stable (draft_flow m)"
  by (simp add: stable_def draft_flow_def suffix_appendI)

lemma draft_tail:
  "ensures (\<lambda>u. draft_flow m (Return True)) (block [type_message V m, send_or_draft V True])"
  unfolding ensures_def draft_ending_def draft_flow_def
  by (auto simp: Inr_iffs send_or_draft_def suffix_def split: prod.splits sum.splits
      dest!: type_message_events)

lemma draft_in_new_chat:
  "ensures (draft_flow m) (in_new_chat V p m True a sc)"
  unfolding in_new_chat_def
  apply (rule ensures_thn [OF _ stable_draft_flow])
  apply (rule ensures_bnd [OF _ stable_draft_flow])
  apply (rule ensures_case_option)
   apply (rule ensures_thn_ret)
   apply (simp add: ensures_def draft_flow_def split: prod.splits sum.splits)
  apply (rule ensures_thn_ret)
  apply (rule ensures_block_Cons)
   apply (rule ensures_block_Cons)
    apply (rule draft_tail)
   apply (simp_all add: stable_def draft_flow_def suffix_appendI)
  done

lemma draft_attempt_body:
  "ensures (draft_flow m) (attempt_body V p m True a)"
  unfolding attempt_body_def
  apply (rule ensures_bnd [OF _ stable_draft_flow])
  apply (rule ensures_case_option)
   apply (rule ensures_thn_ret)
   apply (simp add: ensures_def draft_flow_def split: prod.splits sum.splits)
  apply (rule draft_in_new_chat)
  done

lemma on_error_continues: "ensures (\<lambda>c es. c = Continue) (on_error V a e)"
  unfolding on_error_def
  by (rule ensures_thn_ret) (simp add: ensures_def split: prod.splits sum.splits)

lemma draft_send_attempt:
  "ensures (draft_flow m) (send_attempt V p m True a)"
  unfolding send_attempt_def
proof (intro ensures_try draft_attempt_body stable_draft_flow)
  fix e
  show "ensures (draft_flow m) (on_error V a e)"
    using on_error_continues [of V a e]
    by (auto simp: ensures_def draft_flow_def split: prod.splits sum.splits dest: spec)
qed

lemma draft_send_loop:
  "ensures (\<lambda>b es. b \<and> suffix (draft_ending m) es) (send_loop V p m True as)"
proof (induction as)
  case Nil
  show ?case by (simp add: ensures_raise)
next
  case (Cons a as)
  have st: "stable (\<lambda>b es. b \<and> suffix (draft_ending m) es)"
    by (simp add: stable_def suffix_appendI)
  show ?case
    unfolding ensures_def
  proof
    fix d
    obtain r es d' where sa: "send_attempt V p m True a d = (r, es, d')"
      by (cases "send_attempt V p m True a d") auto
    show "case send_loop V p m True (a # as) d of
            (Inr x, es, d') \<Rightarrow> x \<and> suffix (draft_ending m) es
          | (Inl e, es, d') \<Rightarrow> True"
    proof (cases r)
      case (Inl e)
      with sa show ?thesis by (simp add: bnd_def)
    next
      case (Inr c)
      show ?thesis
      proof (cases c)
        case Continue
        obtain r2 es2 d2 where sl: "send_loop V p m True as d' = (r2, es2, d2)"
          by (cases "send_loop V p m True as d'") auto
        with sa Inr Continue ensuresD [OF Cons.IH, of d' _ es2 d2] show ?thesis
          by (cases r2) (auto simp: bnd_def suffix_appendI)
      next
        case (Return b)
        with sa Inr ensuresD [OF draft_send_attempt, of V p m a d c es d'] show ?thesis
          by (simp add: bnd_def ret_def draft_flow_def)
      qed
    qed
  qed
qed

lemma ids_distinct [simp]:
  "START_CHAT_ID \<noteq> COMPOSE_DRAFT_SEND_ID"
  "CONTACT_SEARCH_FIELD \<noteq> COMPOSE_DRAFT_SEND_ID"
  "CONTACT_SUGGESTION_SELECTOR \<noteq> COMPOSE_DRAFT_SEND_ID"
  by (simp_all add: START_CHAT_ID_def COMPOSE_DRAFT_SEND_ID_def CONTACT_SEARCH_FIELD_def
      CONTACT_SUGGESTION_SELECTOR_def MESSAGES_PACKAGE_def)

lemma draft_attempt_body_quiet:
  "emits (\<lambda>e. \<not> send_action e) (attempt_body V p m True a)"
  unfolding attempt_body_def find_start_chat_def in_new_chat_def enter_number_def
    select_suggestion_def type_message_def send_or_draft_def
  by (intro emits_intros; simp add: send_action_def)

lemma on_error_quiet:
  "emits (\<lambda>e. \<not> send_action e) (on_error V a e)"
  unfolding on_error_def
  by (intro emits_intros; simp add: send_action_def)

lemma draft_send_loop_quiet:
  "emits (\<lambda>e. \<not> send_action e) (send_loop V p m True as)"
  by (induction as)
    (auto intro!: emits_intros draft_attempt_body_quiet on_error_quiet simp: send_attempt_def)

text \<open>
  C8. In draft-only mode \<open>send_sms\<close> produces no event of submitting a message, whatever
  the device, the recipient and the message: it never looks the send button up and never
  reaches the statements that tap it or press Enter in its place. When it returns, it
  returns \<open>True\<close> and its last events are the typing of the message, the pause and the
  log line of the saved draft: nothing is tapped or keyed after the message is typed.
\<close>

theorem draft_never_sends:
  "list_all (\<lambda>e. \<not> send_action e) (events (send_sms V phone_number message True d))
   \<and> (\<forall>b. result (send_sms V phone_number message True d) = Inr b \<longrightarrow>
          b \<and> suffix (draft_ending message) (events (send_sms V phone_number message True d)))"
proof -
  obtain r es d' where s: "send_sms V phone_number message True d = (r, es, d')"
    by (cases "send_sms V phone_number message True d") auto
  have "list_all (\<lambda>e. \<not> send_action e) (events (send_sms V phone_number message True d))"
    unfolding send_sms_def by (rule emitsD [OF draft_send_loop_quiet])
  moreover have "b \<and> suffix (draft_ending message) es" if "r = Inr b" for b
    using that s
      ensuresD [OF draft_send_loop, of V phone_number message "[0 ..< max_retries]" d b es d']
    by (simp add: send_sms_def)
  ultimately show ?thesis using s by auto
qed

theorem draft_never_sends_witness:
  "list_all (\<lambda>e. \<not> send_action e) (events (send_sms (phone 0 0) ''+14155550100'' ''Hello'' True 0))
   \<and> result (send_sms (phone 0 0) ''+14155550100'' ''Hello'' True 0) = Inr True
   \<and> suffix (draft_ending ''Hello'') (events (send_sms (phone 0 0) ''+14155550100'' ''Hello'' True 0))"
proof -
  have r: "result (send_sms (phone 0 0) ''+14155550100'' ''Hello'' True 0) = Inr True"
    by code_simp
  show ?thesis
    using r draft_never_sends [of "phone 0 0" "''+14155550100''" "''Hello''" 0] by auto
qed

section \<open>Returning to the main screen\<close>

lemma back_press_count:
  assumes "back_press V w w' d = (Inr u, es, d')"
  shows "length (filter back_navigation es) = 1"
proof -
  from assms obtain bs es2 d2 where
    rest: "(case bs of
              b # _ \<Rightarrow> block [print (w @ '' back button press...''), touch V b, sleep 2000]
            | [] \<Rightarrow> block [print (''Using hardware back key ('' @ w' @ '' press)...''),
                           shell V KEYCODE_BACK, sleep 2000]) d2 = (Inr u, es2, d')"
    and es: "es = [Dump, FindViewsWithContentDescriptionRe ''Back''] @ es2"
    by (auto simp: back_press_def Inr_iffs prim_defs)
  from rest have "length (filter back_navigation es2) = 1"
    by (cases bs) (auto simp: Inr_iffs prim_defs back_navigation_def)
  with es show ?thesis by (simp add: back_navigation_def)
qed

lemma navigate_back_count:
  "navigate_back V d = (Inr u, es, d') \<Longrightarrow> length (filter back_navigation es) = 2"
  by (auto simp: navigate_back_def Inr_iffs back_navigation_def dest!: back_press_count)

lemma navigate_back_quiet:
  "emits (\<lambda>e. e \<noteq> FindViewById START_CHAT_ID) (navigate_back V)"
  unfolding navigate_back_def back_press_def
  by (intro emits_intros; simp)

lemma back_fallback_quiet:
  "emits (\<lambda>e. e \<noteq> FindViewById START_CHAT_ID) (back_fallback V e)"
  unfolding back_fallback_def
  by (intro emits_intros; simp)

lemma shell_back_works:
  "back_key_works V \<Longrightarrow> shell V KEYCODE_BACK d = (Inr (), [Shell KEYCODE_BACK], snd (vc_shell V KEYCODE_BACK d))"
  by (cases "vc_shell V KEYCODE_BACK d")
    (auto simp: back_key_works_def shell_def call_def split: sum.splits dest: spec [where x = d])

lemma back_fallback_works:
  "back_key_works V \<Longrightarrow>
   result (back_fallback V e d) = Inr False \<and> events (back_fallback V e d) = fallback_events e"
  by (simp add: back_fallback_def thn_def bnd_def print_def emit_def sleep_def ret_def
      shell_back_works fallback_events_def)

lemma go_back_returns:
  "go_back_body V d = (Inr b, es, d') \<Longrightarrow> go_back_to_main_screen V d = (Inr b, es, d')"
  by (simp add: go_back_to_main_screen_def try_except_def)

lemma go_back_raises:
  "go_back_body V d = (Inl e, es, d') \<Longrightarrow>
   go_back_to_main_screen V d = after es (back_fallback V e d')"
  by (simp add: go_back_to_main_screen_def try_except_def)

lemma find_start_chat_events:
  "FindViewById START_CHAT_ID \<in> set (events (find_start_chat V d)) \<Longrightarrow>
   takeWhile (\<lambda>e. e \<noteq> FindViewById START_CHAT_ID) (events (find_start_chat V d)) = [Dump]"
  by (auto simp: find_start_chat_def run_simps prim_defs split: sum.splits)

lemma navigate_back_quiet':
  "FindViewById START_CHAT_ID \<notin> set (events (navigate_back V d))"
  using emitsD [OF navigate_back_quiet, of V d] by (auto simp: list_all_iff)

lemma back_fallback_quiet':
  "FindViewById START_CHAT_ID \<notin> set (events (back_fallback V e d))"
  using emitsD [OF back_fallback_quiet, of V e d] by (auto simp: list_all_iff)

lemma navigate_back_count':
  "result (navigate_back V d) = Inr u \<Longrightarrow>
   length (filter back_navigation (events (navigate_back V d))) = 2"
  by (cases "navigate_back V d") (auto dest: navigate_back_count)

lemma landmark_after_two:
  assumes "FindViewById START_CHAT_ID \<in> set (events (go_back_to_main_screen V d))"
  shows "length (filter back_navigation
           (takeWhile (\<lambda>e. e \<noteq> FindViewById START_CHAT_ID)
              (events (go_back_to_main_screen V d)))) = 2"
proof (cases "result (navigate_back V d)")
  case (Inl e)
  with assms show ?thesis
    by (simp add: go_back_to_main_screen_def go_back_body_def run_simps
        navigate_back_quiet' back_fallback_quiet')
next
  case (Inr u)
  let ?d1 = "final (navigate_back V d)"
  let ?rest = "events (go_back_to_main_screen V d)"
  have lm: "FindViewById START_CHAT_ID \<in> set (events (find_start_chat V ?d1))"
  proof (rule ccontr)
    assume n: "FindViewById START_CHAT_ID \<notin> set (events (find_start_chat V ?d1))"
    from assms Inr n show False
      by (auto simp: go_back_to_main_screen_def go_back_body_def run_simps
          navigate_back_quiet' back_fallback_quiet' split: sum.splits option.splits)
  qed
  have "\<exists>rest. events (go_back_to_main_screen V d) =
          events (navigate_back V d) @ events (find_start_chat V ?d1) @ rest"
    using Inr
    by (auto simp: go_back_to_main_screen_def go_back_body_def run_simps
        split: sum.splits option.splits)
  then obtain rest where ev: "events (go_back_to_main_screen V d) =
          events (navigate_back V d) @ events (find_start_chat V ?d1) @ rest"
    by blast
  have "takeWhile (\<lambda>e. e \<noteq> FindViewById START_CHAT_ID) (events (go_back_to_main_screen V d)) =
          events (navigate_back V d) @ [Dump]"
    using navigate_back_quiet' [of V d] lm find_start_chat_events [OF lm]
    by (auto simp: ev takeWhile_append)
  then show ?thesis
    using navigate_back_count' [OF Inr] by (simp add: back_navigation_def)
qed

lemma back_fallback_false: "result (back_fallback V e d) \<noteq> Inr True"
proof -
  have "ensures (\<lambda>b es. \<not> b) (back_fallback V e)"
    unfolding back_fallback_def
    by (rule ensures_thn_ret) (simp add: ensures_def split: prod.splits sum.splits)
  then show ?thesis
    by (cases "back_fallback V e d") (auto dest: ensuresD)
qed

lemma go_back_body_true_iff:
  "result (go_back_body V d) = Inr True \<longleftrightarrow>
     result (navigate_back V d) = Inr ()
     \<and> (\<exists>sc. result (find_start_chat V (final (navigate_back V d))) = Inr (Some sc))"
  by (auto simp: go_back_body_def run_thn run_bnd split: sum.splits option.splits)

lemma go_back_true_iff:
  "result (go_back_to_main_screen V d) = Inr True \<longleftrightarrow>
     result (navigate_back V d) = Inr ()
     \<and> (\<exists>sc. result (find_start_chat V (final (navigate_back V d))) = Inr (Some sc))"
proof (cases "result (go_back_body V d)")
  case (Inl e)
  then have "result (go_back_to_main_screen V d) \<noteq> Inr True"
    by (simp add: go_back_to_main_screen_def run_try_except back_fallback_false)
  with Inl go_back_body_true_iff [of V d] show ?thesis by simp
next
  case (Inr b)
  then have "result (go_back_to_main_screen V d) = result (go_back_body V d)"
    by (simp add: go_back_to_main_screen_def run_try_except)
  with go_back_body_true_iff [of V d] show ?thesis by simp
qed

lemma go_back_not_found:
  "result (navigate_back V d) = Inr () \<Longrightarrow>
   result (find_start_chat V (final (navigate_back V d))) = Inr None \<Longrightarrow>
   result (go_back_to_main_screen V d) = Inr False"
  by (simp add: go_back_to_main_screen_def go_back_body_def run_simps)

lemma go_back_fallback:
  "result (go_back_body V d) = Inl e \<Longrightarrow> back_key_works V \<Longrightarrow>
   result (go_back_to_main_screen V d) = Inr False
   \<and> events (go_back_to_main_screen V d) = events (go_back_body V d) @ fallback_events e"
  by (simp add: go_back_to_main_screen_def run_try_except back_fallback_works)

lemma go_back_same:
  "result (go_back_body V d) = Inr b \<Longrightarrow> go_back_to_main_screen V d = go_back_body V d"
  by (cases "go_back_body V d") (simp add: go_back_to_main_screen_def try_except_def)

text \<open>
  C7, as stated, fails in one point: \<open>go_back_to_main_screen\<close> can raise. The \<open>except\<close> clause
  sends the hardware back key without a guard of its own, so on a device where every call
  raises, the exception of the back key leaves the function.
\<close>

theorem go_back_to_main_screen_offline_counterexample:
  "result (go_back_to_main_screen offline ()) = Inl (LibraryError ''device offline'')"
  by code_simp

text \<open>
  C7, amended. Whenever \<open>go_back_to_main_screen\<close> looks for the start-chat landmark, exactly
  two back navigations (taps or back keys) precede the lookup. It returns \<open>True\<close> exactly
  when both back presses went through and the landmark was found, and \<open>False\<close>, without
  raising, when the landmark was not found. When the \<open>try\<close> block raises, the function sends
  the hardware back key twice and, if the back key does not raise, returns \<open>False\<close>. It
  raises only when the back key of that fallback raises: on a device whose back key
  never raises it always returns \<open>True\<close> or \<open>False\<close>.
\<close>

theorem go_back_to_main_screen_best_effort:
  "(FindViewById START_CHAT_ID \<in> set (events (go_back_to_main_screen V d)) \<longrightarrow>
      length (filter back_navigation
        (takeWhile (\<lambda>e. e \<noteq> FindViewById START_CHAT_ID)
           (events (go_back_to_main_screen V d)))) = 2)
   \<and> (result (go_back_to_main_screen V d) = Inr True \<longleftrightarrow>
        result (navigate_back V d) = Inr ()
        \<and> (\<exists>sc. result (find_start_chat V (final (navigate_back V d))) = Inr (Some sc)))
   \<and> (result (navigate_back V d) = Inr ()
        \<and> result (find_start_chat V (final (navigate_back V d))) = Inr None \<longrightarrow>
      result (go_back_to_main_screen V d) = Inr False)
   \<and> (\<forall>b. result (go_back_body V d) = Inr b \<longrightarrow>
        go_back_to_main_screen V d = go_back_body V d)
   \<and> (\<forall>e. result (go_back_body V d) = Inl e \<and> back_key_works V \<longrightarrow>
        result (go_back_to_main_screen V d) = Inr False
        \<and> events (go_back_to_main_screen V d) = events (go_back_body V d) @ fallback_events e)
   \<and> (back_key_works V \<longrightarrow>
        result (go_back_to_main_screen V d) = Inr True
        \<or> result (go_back_to_main_screen V d) = Inr False)"
proof -
  have "result (go_back_to_main_screen V d) = Inr True
        \<or> result (go_back_to_main_screen V d) = Inr False" if "back_key_works V"
  proof (cases "result (go_back_body V d)")
    case (Inl e)
    with that go_back_fallback [of V d e] show ?thesis by simp
  next
    case (Inr b)
    with go_back_same [of V d b] show ?thesis by (cases b) simp_all
  qed
  then show ?thesis
    using landmark_after_two [of V d] go_back_true_iff [of V d] go_back_not_found [of V d]
      go_back_same [of V d] go_back_fallback [of V d]
    by blast
qed

theorem go_back_to_main_screen_best_effort_witness:
  "FindViewById START_CHAT_ID \<in> set (events (go_back_to_main_screen (phone 0 0) 0))
   \<and> length (filter back_navigation
        (takeWhile (\<lambda>e. e \<noteq> FindViewById START_CHAT_ID)
           (events (go_back_to_main_screen (phone 0 0) 0)))) = 2
   \<and> result (go_back_to_main_screen (phone 0 0) 0) = Inr True
   \<and> result (navigate_back (phone 0 5) 0) = Inr ()
   \<and> result (find_start_chat (phone 0 5) (final (navigate_back (phone 0 5) 0))) = Inr None
   \<and> result (go_back_to_main_screen (phone 0 5) 0) = Inr False
   \<and> back_key_works blind
   \<and> result (go_back_body blind ()) = Inl (LibraryError ''snapshot failed'')
   \<and> result (go_back_to_main_screen blind ()) = Inr False
   \<and> events (go_back_to_main_screen blind ()) =
       events (go_back_body blind ()) @ fallback_events (LibraryError ''snapshot failed'')"
proof -
  have a: "FindViewById START_CHAT_ID \<in> set (events (go_back_to_main_screen (phone 0 0) 0))"
    by code_simp
  have b: "result (go_back_to_main_screen (phone 0 0) 0) = Inr True"
    by code_simp
  have c: "result (navigate_back (phone 0 5) 0) = Inr ()"
    "result (find_start_chat (phone 0 5) (final (navigate_back (phone 0 5) 0))) = Inr None"
    by code_simp+
  have d: "back_key_works blind"
    by (simp add: back_key_works_def blind_def)
  have e: "result (go_back_body blind ()) = Inl (LibraryError ''snapshot failed'')"
    by code_simp
  show ?thesis
    using a b c d e
      go_back_to_main_screen_best_effort [of "phone 0 0" 0]
      go_back_to_main_screen_best_effort [of "phone 0 5" 0]
      go_back_to_main_screen_best_effort [of blind "()"]
    by simp
qed

section \<open>The retry loop of \<open>send_sms\<close>\<close>

lemma in_new_chat_returns: "ensures (\<lambda>c es. c = Continue \<or> c = Return True) (in_new_chat V p m dr a sc)"
  unfolding in_new_chat_def
  apply (rule ensures_thn)
   apply (rule ensures_bnd)
    apply (rule ensures_case_option)
     apply (rule ensures_thn_ret)
     apply (simp add: ensures_def split: prod.splits sum.splits)
    apply (rule ensures_thn_ret)
    apply (simp add: ensures_def split: prod.splits sum.splits)
   apply (simp_all add: stable_def)
  done

lemma attempt_body_returns: "ensures (\<lambda>c es. c = Continue \<or> c = Return True) (attempt_body V p m dr a)"
  unfolding attempt_body_def
  apply (rule ensures_bnd)
   apply (rule ensures_case_option)
    apply (rule ensures_thn_ret)
    apply (simp add: ensures_def split: prod.splits sum.splits)
   apply (rule in_new_chat_returns)
  apply (simp add: stable_def)
  done

lemma send_attempt_returns:
  "result (send_attempt V p m dr a d) = Inr (Return b) \<Longrightarrow> b"
proof -
  have "ensures (\<lambda>c es. c = Continue \<or> c = Return True) (send_attempt V p m dr a)"
    unfolding send_attempt_def
  proof (rule ensures_try [OF attempt_body_returns])
    fix e
    show "ensures (\<lambda>c es. c = Continue \<or> c = Return True) (on_error V a e)"
      using on_error_continues [of V a e]
      by (auto simp: ensures_def split: prod.splits sum.splits dest: spec)
  qed (simp add: stable_def)
  then show "result (send_attempt V p m dr a d) = Inr (Return b) \<Longrightarrow> b"
    by (cases "send_attempt V p m dr a d") (auto dest: ensuresD)
qed

lemma quiet_filter: "emits (\<lambda>e. \<not> Q e) m \<Longrightarrow> filter Q (events (m d)) = []"
  by (auto simp: emits_def list_all_iff filter_empty_conv)

lemma find_start_chat_no_notice: "emits (\<lambda>e. \<not> attempt_failed e) (find_start_chat V)"
  unfolding find_start_chat_def
  by (intro emits_intros; simp add: attempt_failed_def)

lemma compose_no_notice:
  "emits (\<lambda>e. \<not> attempt_failed e)
     (block [enter_number V p cf, select_suggestion V p, type_message V m, send_or_draft V dr])"
  unfolding enter_number_def select_suggestion_def type_message_def send_or_draft_def
  by (intro emits_intros; simp add: attempt_failed_def)

lemma open_chat_no_notice:
  "emits (\<lambda>e. \<not> attempt_failed e)
     (block [print ''Starting new chat...'', touch V sc, sleep 3000, dump V])"
  by (intro emits_intros; simp add: attempt_failed_def)

lemma run_notice:
  "result (block [print s, sleep 2000] d) = Inr ()"
  "events (block [print s, sleep 2000] d) = [Print s, Sleep 2000]"
  "final (block [print s, sleep 2000] d) = d"
  by (simp_all add: run_thn)

lemma in_new_chat_notices:
  "length (filter attempt_failed (events (in_new_chat V p m dr a sc d))) =
     (if result (in_new_chat V p m dr a sc d) = Inr Continue then 1 else 0)"
proof -
  let ?open = "block [print ''Starting new chat...'', touch V sc, sleep 3000, dump V]"
  let ?d1 = "final (?open d)"
  let ?find = "findViewById V CONTACT_SEARCH_FIELD"
  have q1: "filter attempt_failed (events (?open d)) = []"
    by (rule quiet_filter [OF open_chat_no_notice])
  have q2: "filter attempt_failed (events (?find ?d1)) = []"
    by (simp add: findViewById_def attempt_failed_def)
  show ?thesis
  proof (cases "result (?open d)")
    case (Inl e)
    with q1 show ?thesis
      by (simp add: in_new_chat_def run_thn del: block.simps)
  next
    case open_ok: (Inr u)
    show ?thesis
    proof (cases "result (?find ?d1)")
      case (Inl e)
      with open_ok q1 q2 show ?thesis
        by (simp add: in_new_chat_def run_thn run_bnd del: block.simps)
    next
      case found: (Inr cf)
      show ?thesis
      proof (cases cf)
        case None
        with open_ok found q1 q2 show ?thesis
          by (simp add: in_new_chat_def run_thn run_bnd run_notice attempt_failed_def
              del: block.simps)
      next
        case (Some c)
        with open_ok found q1 q2 quiet_filter [OF compose_no_notice, of V p c m dr] show ?thesis
          by (simp add: in_new_chat_def run_thn run_bnd del: block.simps split: sum.split)
      qed
    qed
  qed
qed

lemma attempt_body_notices:
  "length (filter attempt_failed (events (attempt_body V p m dr a d))) =
     (if result (attempt_body V p m dr a d) = Inr Continue then 1 else 0)"
proof -
  have q: "filter attempt_failed (events (find_start_chat V d)) = []"
    by (rule quiet_filter [OF find_start_chat_no_notice])
  show ?thesis
  proof (cases "result (find_start_chat V d)")
    case (Inl e)
    with q show ?thesis
      by (simp add: attempt_body_def run_bnd)
  next
    case found: (Inr start_chat)
    show ?thesis
    proof (cases start_chat)
      case None
      with found q show ?thesis
        by (simp add: attempt_body_def run_thn run_bnd run_notice attempt_failed_def
            del: block.simps)
    next
      case (Some sc)
      with found q in_new_chat_notices [of V p m dr a sc "final (find_start_chat V d)"]
      show ?thesis
        by (simp add: attempt_body_def run_bnd)
    qed
  qed
qed

lemma unwind_no_notice:
  "emits (\<lambda>e. \<not> attempt_failed e)
     (block [print ''Retrying after error...'', sleep 2000,
             repeat 3 (block [shell V KEYCODE_BACK, sleep 1000]),
             sleep 2000])"
  by (intro emits_intros; simp add: attempt_failed_def)

lemma run_print_then:
  "events (thn (block [print s, m]) (ret c) d) = Print s # events (m d)"
  "result (thn (block [print s, m]) (ret c) d) =
     (case result (m d) of Inl e \<Rightarrow> Inl e | Inr u \<Rightarrow> Inr c)"
  by (simp_all add: run_thn split: sum.split)

lemma error_is_notice: "attempt_failed (Print (''Error on attempt '' @ t))"
  by (simp add: attempt_failed_def)

lemma on_error_notices:
  "length (filter attempt_failed (events (on_error V a e d))) = 1"
proof (cases "a < max_retries - 1")
  case True
  then have "events (on_error V a e d) =
          Print (''Error on attempt '' @ str_nat (a + 1) @ '': '' @ str_exn e)
          # events (block [print ''Retrying after error...'', sleep 2000,
                           repeat 3 (block [shell V KEYCODE_BACK, sleep 1000]),
                           sleep 2000] d)"
    unfolding on_error_def by (simp only: run_print_then if_True)
  then show ?thesis
    by (simp only: filter.simps error_is_notice if_True quiet_filter [OF unwind_no_notice]
        list.size)
next
  case False
  then have "events (on_error V a e d) =
          [Print (''Error on attempt '' @ str_nat (a + 1) @ '': '' @ str_exn e)]"
    unfolding on_error_def by (simp only: run_print_then if_False run_ret)
  then show ?thesis
    by (simp only: filter.simps error_is_notice if_True list.size)
qed

lemma send_attempt_notices:
  "length (filter attempt_failed (events (send_attempt V p m dr a d))) =
     (case result (send_attempt V p m dr a d) of Inr (Return b) \<Rightarrow> 0 | _ \<Rightarrow> 1)"
proof (cases "result (attempt_body V p m dr a d)")
  case (Inl e)
  let ?d1 = "final (attempt_body V p m dr a d)"
  from on_error_continues [of V a e] have "result (on_error V a e ?d1) \<noteq> Inr (Return b)" for b
    by (cases "on_error V a e ?d1") (auto dest: ensuresD)
  with Inl attempt_body_notices [of V p m dr a d] on_error_notices [of V a e ?d1] show ?thesis
    by (simp add: send_attempt_def run_try_except split: sum.split flow.split)
next
  case (Inr c)
  with attempt_body_notices [of V p m dr a d] show ?thesis
    by (simp add: send_attempt_def run_try_except split: flow.split)
qed

lemma on_error_raises:
  "result (on_error V a e d) = Inl x \<Longrightarrow> \<exists>msg. x = LibraryError msg"
  by (auto simp: on_error_def run_thn shell_def run_call numeral_3_eq_3 split: sum.splits if_splits)

lemma send_attempt_raises:
  "result (send_attempt V p m dr a d) = Inl x \<Longrightarrow> \<exists>msg. x = LibraryError msg"
  by (auto simp: send_attempt_def run_try_except split: sum.splits dest: on_error_raises)

lemma send_loop_notices:
  "length (filter attempt_failed (events (send_loop V p m dr as d))) \<le> length as
   \<and> (result (send_loop V p m dr as d) = Inl (failed_to_send p) \<longrightarrow>
        length (filter attempt_failed (events (send_loop V p m dr as d))) = length as)
   \<and> (\<forall>b. result (send_loop V p m dr as d) = Inr b \<longrightarrow>
        b \<and> length (filter attempt_failed (events (send_loop V p m dr as d))) < length as)"
proof (induction as arbitrary: d)
  case Nil
  show ?case by (simp add: failed_to_send_def)
next
  case (Cons a as)
  let ?sa = "send_attempt V p m dr a d"
  note n = send_attempt_notices [of V p m dr a d]
  show ?case
  proof (cases "result ?sa")
    case (Inl x)
    with send_attempt_raises [of V p m dr a d x] n show ?thesis
      by (auto simp: run_bnd failed_to_send_def)
  next
    case (Inr c)
    show ?thesis
    proof (cases c)
      case Continue
      with Inr n Cons.IH [of "final ?sa"] show ?thesis
        by (auto simp: run_bnd)
    next
      case (Return b)
      have "b"
        using Inr Return send_attempt_returns [of V p m dr a d b] by simp
      with Inr Return n show ?thesis
        by (simp add: run_bnd)
    qed
  qed
qed

lemma unfailingD: "unfailing m \<Longrightarrow> \<exists>x. result (m d) = Inr x"
  by (cases "result (m d)") (auto simp: unfailing_def dest: spec [where x = d])

lemma unfailing_ret [unfailing_intros]: "unfailing (ret x)"
  by (simp add: unfailing_def)

lemma unfailing_print [unfailing_intros]: "unfailing (print s)"
  by (simp add: unfailing_def)

lemma unfailing_sleep [unfailing_intros]: "0 \<le> ms \<Longrightarrow> unfailing (sleep ms)"
  by (simp add: unfailing_def)

lemma unfailing_bnd [unfailing_intros]:
  assumes "unfailing m" and "\<And>x. unfailing (f x)"
  shows "unfailing (bnd m f)"
  unfolding unfailing_def
proof
  fix d
  from unfailingD [OF assms(1)] obtain x where "result (m d) = Inr x"
    by blast
  with assms(2) [of x] show "\<not> isl (result (bnd m f d))"
    by (simp add: run_bnd unfailing_def)
qed

lemma unfailing_thn [unfailing_intros]: "unfailing m \<Longrightarrow> unfailing n \<Longrightarrow> unfailing (thn m n)"
  by (simp add: thn_def unfailing_bnd)

lemma unfailing_block_Nil [unfailing_intros]: "unfailing (block [])"
  by (simp add: unfailing_ret)

lemma unfailing_block_Cons [unfailing_intros]: "unfailing m \<Longrightarrow> unfailing (block ms) \<Longrightarrow> unfailing (block (m # ms))"
  by (simp add: unfailing_thn)

lemma unfailing_if [unfailing_intros]:
  "(c \<Longrightarrow> unfailing a) \<Longrightarrow> (\<not> c \<Longrightarrow> unfailing b) \<Longrightarrow> unfailing (if c then a else b)"
  by simp

lemma unfailing_case_option [unfailing_intros]:
  "unfailing a \<Longrightarrow> (\<And>v. unfailing (b v)) \<Longrightarrow> unfailing (case x of None \<Rightarrow> a | Some v \<Rightarrow> b v)"
  by (cases x) simp_all

lemma unfailing_case_list [unfailing_intros]:
  "unfailing a \<Longrightarrow> (\<And>v vs. unfailing (b v vs)) \<Longrightarrow> unfailing (case x of [] \<Rightarrow> a | v # vs \<Rightarrow> b v vs)"
  by (cases x) simp_all

lemma unfailing_call:
  assumes "\<And>d. \<not> isl (fst (f d))"
  shows "unfailing (call ev f)"
  unfolding unfailing_def
proof
  fix d
  from assms [of d] show "\<not> isl (result (call ev f d))"
    by (cases "fst (f d)") (simp_all add: run_call)
qed

lemma unfailing_prims [unfailing_intros]:
  assumes "never_raises V"
  shows "unfailing (dump V)" "unfailing (findViewById V i)" "unfailing (findViewsContainingText V t)"
    "unfailing (findViewsWithContentDescriptionRe V t)" "unfailing (findViewsWithAttribute V a b)"
    "unfailing (touch V v)" "unfailing (shell V c)" "unfailing (connect V s)"
  using assms unfolding never_raises_def prim_defs by (auto intro!: unfailing_call)

lemma compose_total:
  "never_raises V \<Longrightarrow>
   unfailing (block [enter_number V p cf, select_suggestion V p, type_message V m, send_or_draft V dr])"
  unfolding enter_number_def select_suggestion_def type_message_def send_or_draft_def
  by (intro unfailing_intros; simp)

lemma open_chat_total:
  "never_raises V \<Longrightarrow> unfailing (block [print ''Starting new chat...'', touch V sc, sleep 3000, dump V])"
  by (intro unfailing_intros; simp)

lemma in_new_chat_succeeds:
  assumes nr: "never_raises V" and cf: "contact_field_present V"
  shows "result (in_new_chat V p m dr a sc d) = Inr (Return True)"
proof -
  let ?open = "block [print ''Starting new chat...'', touch V sc, sleep 3000, dump V]"
  let ?d1 = "final (?open d)"
  let ?find = "findViewById V CONTACT_SEARCH_FIELD"
  from unfailingD [OF open_chat_total [OF nr]] obtain u where o: "result (?open d) = Inr u"
    by blast
  from unfailingD [OF unfailing_prims(2) [OF nr]] obtain c where f: "result (?find ?d1) = Inr c"
    by blast
  from cf have "fst (vc_findViewById V CONTACT_SEARCH_FIELD ?d1) \<noteq> Inr None"
    by (simp add: contact_field_present_def)
  with f have "c \<noteq> None"
    by (auto simp: findViewById_def run_call split: sum.splits)
  then obtain v where c: "c = Some v" by auto
  from unfailingD [OF compose_total [OF nr]] obtain w where
    t: "result (block [enter_number V p v, select_suggestion V p, type_message V m,
                       send_or_draft V dr] (final (?find ?d1))) = Inr w"
    by blast
  from o f c t show ?thesis
    by (simp add: in_new_chat_def run_thn run_bnd del: block.simps)
qed

lemma start_chat_notice_failed:
  "attempt_failed (start_chat_notice a)" "\<not> attempt_failed (Sleep n)"
  by (simp_all add: start_chat_notice_def attempt_failed_def)

lemma attempt_not_found:
  assumes "result (find_start_chat V d) = Inr None"
  shows "result (send_attempt V p m dr a d) = Inr Continue"
    and "filter attempt_failed (events (send_attempt V p m dr a d)) = [start_chat_notice a]"
    and "final (send_attempt V p m dr a d) = final (find_start_chat V d)"
proof -
  have ev: "events (attempt_body V p m dr a d) =
              events (find_start_chat V d) @ [start_chat_notice a, Sleep 2000]"
    and r: "result (attempt_body V p m dr a d) = Inr Continue"
    and f: "final (attempt_body V p m dr a d) = final (find_start_chat V d)"
    using assms
    by (simp_all add: attempt_body_def run_bnd run_thn start_chat_notice_def)
  from r show "result (send_attempt V p m dr a d) = Inr Continue"
    by (simp add: send_attempt_def run_try_except)
  from r ev show "filter attempt_failed (events (send_attempt V p m dr a d)) = [start_chat_notice a]"
    by (simp add: send_attempt_def run_try_except start_chat_notice_failed
        quiet_filter [OF find_start_chat_no_notice])
  from r f show "final (send_attempt V p m dr a d) = final (find_start_chat V d)"
    by (simp add: send_attempt_def run_try_except)
qed

lemma attempt_succeeds:
  assumes "never_raises V" and "contact_field_present V"
    and "result (find_start_chat V d) = Inr (Some sc)"
  shows "result (send_attempt V p m dr a d) = Inr (Return True)"
    and "filter attempt_failed (events (send_attempt V p m dr a d)) = []"
proof -
  show r: "result (send_attempt V p m dr a d) = Inr (Return True)"
    using assms(3) in_new_chat_succeeds [OF assms(1,2)]
    by (simp add: send_attempt_def attempt_body_def run_try_except run_bnd)
  from r send_attempt_notices [of V p m dr a d]
  show "filter attempt_failed (events (send_attempt V p m dr a d)) = []"
    by simp
qed

lemma third_attempt:
  assumes "never_raises V" and "contact_field_present V"
    and "result (find_start_chat V d) = Inr None"
    and "result (find_start_chat V (final (find_start_chat V d))) = Inr None"
    and "result (find_start_chat V (final (find_start_chat V (final (find_start_chat V d)))))
           = Inr (Some sc)"
  shows "result (send_sms V p m dr d) = Inr True
       \<and> filter attempt_failed (events (send_sms V p m dr d))
           = [start_chat_notice 0, start_chat_notice 1]"
proof -
  let ?d1 = "final (find_start_chat V d)"
  let ?d2 = "final (find_start_chat V ?d1)"
  have up: "[0 ..< max_retries] = [0, 1, 2]"
    by (simp add: max_retries_def upt_rec)
  note a0 = attempt_not_found [OF assms(3), of p m dr 0]
  note a1 = attempt_not_found [OF assms(4), of p m dr 1]
  note a2 = attempt_succeeds [OF assms(1,2,5), of p m dr 2]
  show ?thesis
    unfolding send_sms_def up
    using a0 a1 a2 by (simp add: run_bnd)
qed

lemma run_shell_back:
  "back_key_works V \<Longrightarrow> result (shell V KEYCODE_BACK d) = Inr ()"
  using shell_back_works [of V d] by simp

lemma events_shell: "events (shell V c d) = [Shell c]"
  by (simp add: shell_def)

lemma on_error_retry:
  assumes "attempt < max_retries - 1" and "back_key_works V"
  shows "result (on_error V attempt e d) = Inr Continue"
    and "events (on_error V attempt e d) = retry_events attempt e"
  using assms
  by (simp_all add: on_error_def run_thn run_shell_back events_shell retry_events_def max_retries_def numeral_3_eq_3)

lemma on_error_last:
  assumes "\<not> attempt < max_retries - 1"
  shows "on_error V attempt e d =
           (Inr Continue, [Print (''Error on attempt '' @ str_nat (attempt + 1) @ '': '' @ str_exn e)], d)"
  using assms
  by (simp add: on_error_def thn_def bnd_def print_def emit_def ret_def)

lemma attempt_body_no_back:
  "emits (\<lambda>e. e \<noteq> Shell KEYCODE_BACK) (attempt_body V p m dr a)"
  unfolding attempt_body_def find_start_chat_def in_new_chat_def enter_number_def
    select_suggestion_def type_message_def send_or_draft_def
  by (intro emits_intros; simp add: KEYCODE_BACK_def KEYCODE_ENTER_def)

lemma send_loop_step:
  "result (send_attempt V p m dr a d) = Inr Continue \<Longrightarrow>
   send_loop V p m dr (a # rest) d =
     after (events (send_attempt V p m dr a d))
       (send_loop V p m dr rest (final (send_attempt V p m dr a d)))"
  by (cases "send_attempt V p m dr a d") (simp add: bnd_def)

lemma send_loop_raises:
  "result (send_loop V p m dr as d) = Inl x \<Longrightarrow>
   x = failed_to_send p \<or> (\<exists>msg. x = LibraryError msg)"
proof (induction as arbitrary: d)
  case Nil
  then show ?case by simp
next
  case (Cons a as)
  show ?case
  proof (cases "result (send_attempt V p m dr a d)")
    case (Inl y)
    with Cons.prems send_attempt_raises [of V p m dr a d y] show ?thesis
      by (simp add: run_bnd)
  next
    case (Inr c)
    with Cons.prems Cons.IH [of "final (send_attempt V p m dr a d)"] show ?thesis
      by (cases c) (simp_all add: run_bnd)
  qed
qed

text \<open>
  C1. \<open>send_sms\<close> makes at most three passes: among its events there are never more than
  three failed passes. It raises the error \<open>Failed to send SMS to ... after 3 attempts\<close> only
  after three failed passes (any other exception it lets through is one the device
  library raised inside the \<open>except\<close> clause), and when it returns it returns \<open>True\<close> after
  fewer than three failed passes. In particular, on a device that never raises and always
  shows the contact search field, if the start-chat button is not found on the first and
  second pass and is found on the third, the call returns \<open>True\<close>, and its failed passes
  are exactly the two start-chat notices of passes 1 and 2.
\<close>

theorem send_sms_three_attempts:
  "length (filter attempt_failed (events (send_sms V p m dr d))) \<le> 3
   \<and> (result (send_sms V p m dr d) = Inl (failed_to_send p) \<longrightarrow>
        length (filter attempt_failed (events (send_sms V p m dr d))) = 3)
   \<and> (\<forall>x. result (send_sms V p m dr d) = Inl x \<longrightarrow>
        x = failed_to_send p \<or> (\<exists>msg. x = LibraryError msg))
   \<and> (\<forall>b. result (send_sms V p m dr d) = Inr b \<longrightarrow>
        b \<and> length (filter attempt_failed (events (send_sms V p m dr d))) < 3)
   \<and> (never_raises V \<and> contact_field_present V
        \<and> result (find_start_chat V d) = Inr None
        \<and> result (find_start_chat V (final (find_start_chat V d))) = Inr None
        \<and> (\<exists>sc. result (find_start_chat V (final (find_start_chat V (final (find_start_chat V d)))))
                  = Inr (Some sc)) \<longrightarrow>
        result (send_sms V p m dr d) = Inr True
        \<and> filter attempt_failed (events (send_sms V p m dr d))
            = [start_chat_notice 0, start_chat_notice 1])"
proof -
  have len: "length [0 ..< max_retries] = 3"
    by (simp add: max_retries_def)
  from send_loop_notices [of V p m dr "[0 ..< max_retries]" d]
  have a: "length (filter attempt_failed (events (send_sms V p m dr d))) \<le> 3"
    and b: "result (send_sms V p m dr d) = Inl (failed_to_send p) \<longrightarrow>
        length (filter attempt_failed (events (send_sms V p m dr d))) = 3"
    and c: "\<forall>b. result (send_sms V p m dr d) = Inr b \<longrightarrow>
        b \<and> length (filter attempt_failed (events (send_sms V p m dr d))) < 3"
    unfolding send_sms_def len by blast+
  have e: "\<forall>x. result (send_sms V p m dr d) = Inl x \<longrightarrow>
        x = failed_to_send p \<or> (\<exists>msg. x = LibraryError msg)"
    unfolding send_sms_def using send_loop_raises [of V p m dr _ d] by blast
  from a b c e third_attempt [of V d _ p m dr] show ?thesis
    by blast
qed

theorem send_sms_three_attempts_witness:
  "never_raises (phone 1 3) \<and> contact_field_present (phone 1 3)
   \<and> result (find_start_chat (phone 1 3) 0) = Inr None
   \<and> result (find_start_chat (phone 1 3) (final (find_start_chat (phone 1 3) 0))) = Inr None
   \<and> (\<exists>sc. result (find_start_chat (phone 1 3)
                (final (find_start_chat (phone 1 3) (final (find_start_chat (phone 1 3) 0)))))
              = Inr (Some sc))
   \<and> result (send_sms (phone 1 3) ''+14155550100'' ''Hello'' False 0) = Inr True
   \<and> filter attempt_failed (events (send_sms (phone 1 3) ''+14155550100'' ''Hello'' False 0))
       = [Print ''Could not find Start Chat button (attempt 1/3). Retrying...'',
          Print ''Could not find Start Chat button (attempt 2/3). Retrying...'']
   \<and> result (send_sms blind ''+14155550100'' ''Hello'' False ())
       = Inl (failed_to_send ''+14155550100'')
   \<and> length (filter attempt_failed (events (send_sms blind ''+14155550100'' ''Hello'' False ()))) = 3"
proof -
  have nr: "never_raises (phone 1 3)"
    by (simp add: never_raises_def phone_def)
  have cf: "contact_field_present (phone 1 3)"
    by (simp add: contact_field_present_def phone_def CONTACT_SEARCH_FIELD_def START_CHAT_ID_def
        CONTACT_SUGGESTION_SELECTOR_def MESSAGES_PACKAGE_def)
  have f: "result (find_start_chat (phone 1 3) 0) = Inr None"
    "final (find_start_chat (phone 1 3) 0) = 1"
    "result (find_start_chat (phone 1 3) 1) = Inr None"
    "final (find_start_chat (phone 1 3) 1) = 2"
    "result (find_start_chat (phone 1 3) 2) = Inr (Some (button START_CHAT_ID))"
    by code_simp+
  have n: "start_chat_notice 0 = Print ''Could not find Start Chat button (attempt 1/3). Retrying...''"
    "start_chat_notice 1 = Print ''Could not find Start Chat button (attempt 2/3). Retrying...''"
    by code_simp+
  have b: "result (send_sms blind ''+14155550100'' ''Hello'' False ())
             = Inl (failed_to_send ''+14155550100'')"
    by code_simp
  show ?thesis
    using nr cf f n b
      send_sms_three_attempts [of "phone 1 3" "''+14155550100''" "''Hello''" False 0]
      send_sms_three_attempts [of blind "''+14155550100''" "''Hello''" False "()"]
    by simp
qed

text \<open>
  C6, as stated, fails on the last pass. On a device whose snapshot raises, the third pass
  (\<open>attempt = 2\<close>) raises at its first statement; the exception is caught and logged, and no
  back key is sent: the guard \<open>attempt < max_retries - 1\<close> of the \<open>except\<close> clause is false.
\<close>

theorem send_attempt_last_counterexample:
  "result (attempt_body blind ''+14155550100'' ''Hello'' False 2 ())
     = Inl (LibraryError ''snapshot failed'')
   \<and> send_attempt blind ''+14155550100'' ''Hello'' False 2 ()
     = (Inr Continue, [Dump, Print ''Error on attempt 3: snapshot failed''], ())
   \<and> Shell KEYCODE_BACK \<notin> set (events (send_attempt blind ''+14155550100'' ''Hello'' False 2 ()))"
  by code_simp

text \<open>
  C6, amended. An exception raised in a pass of \<open>send_sms\<close> is caught. On a pass that is not
  the last, the \<open>except\<close> clause then sends the hardware back key three times and, when the
  back key does not raise, ends the pass so that the loop goes on to the next one; the
  statements of the \<open>try\<close> block never send the back key themselves, so these are the only
  three. On the last pass no back key is sent: the error is logged, the loop ends, and
  with no pass left \<open>send_sms\<close> raises its error.
\<close>

theorem send_attempt_unwinds:
  "(\<forall>e. result (attempt_body V p m dr a d) = Inl e \<and> a < max_retries - 1 \<and> back_key_works V \<longrightarrow>
       result (send_attempt V p m dr a d) = Inr Continue
       \<and> events (send_attempt V p m dr a d) = events (attempt_body V p m dr a d) @ retry_events a e)
   \<and> (\<forall>e. result (attempt_body V p m dr a d) = Inl e \<and> \<not> a < max_retries - 1 \<longrightarrow>
       result (send_attempt V p m dr a d) = Inr Continue
       \<and> events (send_attempt V p m dr a d) =
           events (attempt_body V p m dr a d)
           @ [Print (''Error on attempt '' @ str_nat (a + 1) @ '': '' @ str_exn e)])
   \<and> list_all (\<lambda>e. e \<noteq> Shell KEYCODE_BACK) (events (attempt_body V p m dr a d))
   \<and> (result (send_attempt V p m dr a d) = Inr Continue \<longrightarrow>
       send_loop V p m dr (a # rest) d =
         after (events (send_attempt V p m dr a d))
           (send_loop V p m dr rest (final (send_attempt V p m dr a d))))
   \<and> send_loop V p m dr [] d = (Inl (failed_to_send p), [], d)"
proof -
  have 1: "result (send_attempt V p m dr a d) = Inr Continue
       \<and> events (send_attempt V p m dr a d) = events (attempt_body V p m dr a d) @ retry_events a e"
    if "result (attempt_body V p m dr a d) = Inl e" "a < max_retries - 1" "back_key_works V" for e
    using that by (simp add: send_attempt_def run_try_except on_error_retry)
  have 2: "result (send_attempt V p m dr a d) = Inr Continue
       \<and> events (send_attempt V p m dr a d) =
           events (attempt_body V p m dr a d)
           @ [Print (''Error on attempt '' @ str_nat (a + 1) @ '': '' @ str_exn e)]"
    if "result (attempt_body V p m dr a d) = Inl e" "\<not> a < max_retries - 1" for e
    using that by (simp add: send_attempt_def run_try_except on_error_last)
  have 3: "list_all (\<lambda>e. e \<noteq> Shell KEYCODE_BACK) (events (attempt_body V p m dr a d))"
    by (rule emitsD [OF attempt_body_no_back])
  have 4: "send_loop V p m dr [] d = (Inl (failed_to_send p), [], d)"
    by (simp add: raise_def)
  from 1 2 3 4 send_loop_step [of V p m dr a d rest] show ?thesis
    by blast
qed

theorem send_attempt_unwinds_witness:
  "result (attempt_body blind ''+14155550100'' ''Hello'' False 0 ())
     = Inl (LibraryError ''snapshot failed'')
   \<and> (0 :: nat) < max_retries - 1 \<and> back_key_works blind
   \<and> result (send_attempt blind ''+14155550100'' ''Hello'' False 0 ()) = Inr Continue
   \<and> events (send_attempt blind ''+14155550100'' ''Hello'' False 0 ())
       = events (attempt_body blind ''+14155550100'' ''Hello'' False 0 ())
         @ retry_events 0 (LibraryError ''snapshot failed'')
   \<and> result (attempt_body blind ''+14155550100'' ''Hello'' False 2 ())
       = Inl (LibraryError ''snapshot failed'')
   \<and> \<not> (2 :: nat) < max_retries - 1
   \<and> events (send_attempt blind ''+14155550100'' ''Hello'' False 2 ())
       = events (attempt_body blind ''+14155550100'' ''Hello'' False 2 ())
         @ [Print (''Error on attempt '' @ str_nat (2 + 1) @ '': ''
                   @ str_exn (LibraryError ''snapshot failed''))]
   \<and> send_loop blind ''+14155550100'' ''Hello'' False [2] ()
       = (Inl (failed_to_send ''+14155550100''),
          events (send_attempt blind ''+14155550100'' ''Hello'' False 2 ()), ())"
proof -
  have a: "result (attempt_body blind ''+14155550100'' ''Hello'' False 0 ())
             = Inl (LibraryError ''snapshot failed'')"
    "result (attempt_body blind ''+14155550100'' ''Hello'' False 2 ())
             = Inl (LibraryError ''snapshot failed'')"
    by code_simp+
  have b: "(0 :: nat) < max_retries - 1" "\<not> (2 :: nat) < max_retries - 1"
    by (simp_all add: max_retries_def)
  have c: "back_key_works blind"
    by (simp add: back_key_works_def blind_def)
  show ?thesis
    using a b c
      send_attempt_unwinds [of blind "''+14155550100''" "''Hello''" False 0 "()" "[]"]
      send_attempt_unwinds [of blind "''+14155550100''" "''Hello''" False 2 "()" "[]"]
    by (cases "send_attempt blind ''+14155550100'' ''Hello'' False 2 ()") simp
qed

section \<open>The loop over the recipients\<close>

lemma process_raised:
  "result (send_sms V p m dr d) = Inl e \<Longrightarrow>
   process V m dr del delay n i cnt p d =
     after (events (send_sms V p m dr d))
       (thn (recover V p e) (ret cnt) (final (send_sms V p m dr d)))"
  by (cases "send_sms V p m dr d") (simp add: process_def)

lemma process_sent:
  "result (send_sms V p m dr d) = Inr b \<Longrightarrow>
   process V m dr del delay n i cnt p d =
     after (events (send_sms V p m dr d))
       (thn (try_except (after_send V del delay n i) (recover V p)) (ret (cnt + 1))
          (final (send_sms V p m dr d)))"
  by (cases "send_sms V p m dr d") (simp add: process_def)

lemma run_recover:
  "events (recover V p e d) =
     recover_log p e @ events (go_back_to_main_screen V d)
     @ (if isl (result (go_back_to_main_screen V d)) then [] else [Sleep 1000])"
  "result (recover V p e d) =
     (case result (go_back_to_main_screen V d) of Inl x \<Rightarrow> Inl x | Inr b \<Rightarrow> Inr ())"
  "final (recover V p e d) = final (go_back_to_main_screen V d)"
  by (simp_all add: recover_def recover_log_def run_thn split: sum.split)

lemma main_loop_step:
  "result (process V m dr del delay n i cnt p d) = Inr c \<Longrightarrow>
   main_loop V m dr del delay n i cnt (p # rest) d =
     after (events (process V m dr del delay n i cnt p d))
       (main_loop V m dr del delay n (i + 1) c rest (final (process V m dr del delay n i cnt p d)))"
  by (cases "process V m dr del delay n i cnt p d") (simp add: bnd_def)

lemma ids_cleanup [simp]:
  "START_CHAT_ID \<noteq> LAST_CHAT_ID" "START_CHAT_ID \<noteq> DELETE_CHAT_ID" "START_CHAT_ID \<noteq> CONFIRM_ID"
  "CONTACT_SEARCH_FIELD \<noteq> LAST_CHAT_ID" "CONTACT_SEARCH_FIELD \<noteq> DELETE_CHAT_ID"
  "CONTACT_SEARCH_FIELD \<noteq> CONFIRM_ID"
  "CONTACT_SUGGESTION_SELECTOR \<noteq> LAST_CHAT_ID" "CONTACT_SUGGESTION_SELECTOR \<noteq> DELETE_CHAT_ID"
  "CONTACT_SUGGESTION_SELECTOR \<noteq> CONFIRM_ID"
  "COMPOSE_DRAFT_SEND_ID \<noteq> LAST_CHAT_ID" "COMPOSE_DRAFT_SEND_ID \<noteq> DELETE_CHAT_ID"
  "COMPOSE_DRAFT_SEND_ID \<noteq> CONFIRM_ID"
  by (simp_all add: START_CHAT_ID_def COMPOSE_DRAFT_SEND_ID_def CONTACT_SEARCH_FIELD_def
      CONTACT_SUGGESTION_SELECTOR_def MESSAGES_PACKAGE_def LAST_CHAT_ID_def DELETE_CHAT_ID_def
      CONFIRM_ID_def)

lemma send_loop_no_cleanup:
  "emits (no_cleanup_or_delay delay) (send_loop V p m dr as)"
proof (induction as)
  case Nil
  show ?case by (simp add: emits_raise)
next
  case (Cons a as)
  have body: "emits (no_cleanup_or_delay delay) (attempt_body V p m dr a)"
    unfolding attempt_body_def find_start_chat_def in_new_chat_def enter_number_def
      select_suggestion_def type_message_def send_or_draft_def
    by (intro emits_intros; simp add: no_cleanup_or_delay_def cleanup_event_def delay_notice_def)
  have handler: "emits (no_cleanup_or_delay delay) (on_error V a e)" for e
    unfolding on_error_def
    by (intro emits_intros; simp add: no_cleanup_or_delay_def cleanup_event_def delay_notice_def)
  from body handler Cons.IH show ?case
    by (auto intro!: emits_intros simp: send_attempt_def)
qed

lemma go_back_no_cleanup:
  "emits (no_cleanup_or_delay delay) (go_back_to_main_screen V)"
  unfolding go_back_to_main_screen_def go_back_body_def navigate_back_def back_press_def
    find_start_chat_def back_fallback_def
  by (intro emits_intros; simp add: no_cleanup_or_delay_def cleanup_event_def delay_notice_def)

lemma recover_no_cleanup:
  "emits (no_cleanup_or_delay delay) (recover V p e)"
  unfolding recover_def
  by (intro emits_intros go_back_no_cleanup;
      simp add: no_cleanup_or_delay_def cleanup_event_def delay_notice_def)

text \<open>
  C10. When \<open>send_sms\<close> raises for a recipient, the pass of the loop consists of the events
  of \<open>send_sms\<close>, the two log lines of the \<open>except\<close> clause, the events of the recovery
  navigation and, when that navigation returns, a pause of one second: nothing else. No
  event of deleting a conversation and no delay notice occurs in the pass, also when
  delete mode is on, and the count of successes is unchanged. When the pass returns, the
  loop moves on to the next recipient.
\<close>

theorem failed_recipient_skips_cleanup_and_delay:
  "result (send_sms V p m dr d) = Inl e \<longrightarrow>
     events (process V m dr del delay n i cnt p d) =
       events (send_sms V p m dr d) @ recover_log p e
       @ events (go_back_to_main_screen V (final (send_sms V p m dr d)))
       @ (if isl (result (go_back_to_main_screen V (final (send_sms V p m dr d)))) then []
          else [Sleep 1000])
     \<and> result (process V m dr del delay n i cnt p d) =
         (case result (go_back_to_main_screen V (final (send_sms V p m dr d))) of
            Inl x \<Rightarrow> Inl x | Inr b \<Rightarrow> Inr cnt)
     \<and> list_all (no_cleanup_or_delay delay) (events (process V m dr del delay n i cnt p d))
     \<and> (\<forall>c. result (process V m dr del delay n i cnt p d) = Inr c \<longrightarrow>
          main_loop V m dr del delay n i cnt (p # rest) d =
            after (events (process V m dr del delay n i cnt p d))
              (main_loop V m dr del delay n (i + 1) c rest
                 (final (process V m dr del delay n i cnt p d))))"
proof
  assume r: "result (send_sms V p m dr d) = Inl e"
  let ?d1 = "final (send_sms V p m dr d)"
  have ev: "events (process V m dr del delay n i cnt p d) =
       events (send_sms V p m dr d) @ recover_log p e
       @ events (go_back_to_main_screen V ?d1)
       @ (if isl (result (go_back_to_main_screen V ?d1)) then [] else [Sleep 1000])"
    by (simp add: process_raised [OF r] run_thn run_recover split: sum.split)
  have res: "result (process V m dr del delay n i cnt p d) =
         (case result (go_back_to_main_screen V ?d1) of Inl x \<Rightarrow> Inl x | Inr b \<Rightarrow> Inr cnt)"
    by (simp add: process_raised [OF r] run_thn run_recover split: sum.split)
  have "list_all (no_cleanup_or_delay delay) (events (send_sms V p m dr d))"
    unfolding send_sms_def by (rule emitsD [OF send_loop_no_cleanup])
  moreover have "list_all (no_cleanup_or_delay delay) (events (recover V p e ?d1))"
    by (rule emitsD [OF recover_no_cleanup])
  ultimately have q: "list_all (no_cleanup_or_delay delay) (events (process V m dr del delay n i cnt p d))"
    by (simp add: process_raised [OF r] run_thn split: sum.split)
  from ev res q main_loop_step [of V m dr del delay n i cnt p d _ rest]
  show "events (process V m dr del delay n i cnt p d) =
       events (send_sms V p m dr d) @ recover_log p e
       @ events (go_back_to_main_screen V (final (send_sms V p m dr d)))
       @ (if isl (result (go_back_to_main_screen V (final (send_sms V p m dr d)))) then []
          else [Sleep 1000])
     \<and> result (process V m dr del delay n i cnt p d) =
         (case result (go_back_to_main_screen V (final (send_sms V p m dr d))) of
            Inl x \<Rightarrow> Inl x | Inr b \<Rightarrow> Inr cnt)
     \<and> list_all (no_cleanup_or_delay delay) (events (process V m dr del delay n i cnt p d))
     \<and> (\<forall>c. result (process V m dr del delay n i cnt p d) = Inr c \<longrightarrow>
          main_loop V m dr del delay n i cnt (p # rest) d =
            after (events (process V m dr del delay n i cnt p d))
              (main_loop V m dr del delay n (i + 1) c rest
                 (final (process V m dr del delay n i cnt p d))))"
    by blast
qed

lemma unfailing_try:
  assumes "\<And>e. unfailing (h e)"
  shows "unfailing (try_except m h)"
  unfolding unfailing_def
proof
  fix d
  show "\<not> isl (result (try_except m h d))"
  proof (cases "result (m d)")
    case (Inl e)
    with unfailingD [OF assms, of e "final (m d)"] show ?thesis
      by (auto simp: run_try_except)
  next
    case (Inr x)
    then show ?thesis by (simp add: run_try_except)
  qed
qed

lemma go_back_unfailing: "back_key_works V \<Longrightarrow> unfailing (go_back_to_main_screen V)"
  unfolding go_back_to_main_screen_def
proof (rule unfailing_try)
  fix e
  assume "back_key_works V"
  then show "unfailing (back_fallback V e)"
    by (simp add: unfailing_def back_fallback_works)
qed

lemma recover_unfailing: "back_key_works V \<Longrightarrow> unfailing (recover V p e)"
  unfolding recover_def
  by (intro unfailing_intros go_back_unfailing; simp)

lemma process_unfailing:
  assumes "back_key_works V"
  shows "\<not> isl (result (process V m dr del delay n i cnt p d))"
proof (cases "result (send_sms V p m dr d)")
  case (Inl e)
  from unfailingD [OF recover_unfailing [OF assms], of p e "final (send_sms V p m dr d)"]
  show ?thesis
    by (auto simp: process_raised [OF Inl] run_thn)
next
  case (Inr b)
  have "unfailing (try_except (after_send V del delay n i) (recover V p))"
    by (rule unfailing_try) (rule recover_unfailing [OF assms])
  from unfailingD [OF this, of "final (send_sms V p m dr d)"]
  show ?thesis
    by (auto simp: process_sent [OF Inr] run_thn)
qed

lemma main_loop_unfailing:
  assumes "back_key_works V"
  shows "\<not> isl (result (main_loop V m dr del delay n i cnt ps d))"
proof (induction ps arbitrary: i cnt d)
  case Nil
  show ?case by simp
next
  case (Cons p ps)
  from process_unfailing [OF assms, of m dr del delay n i cnt p d]
  obtain c where c: "result (process V m dr del delay n i cnt p d) = Inr c"
    by (cases "result (process V m dr del delay n i cnt p d)") auto
  with Cons.IH show ?case
    by (simp add: run_bnd)
qed

lemma process_count:
  "result (process V m dr del delay n i cnt p d) = Inr c \<Longrightarrow>
   c = (if isl (result (send_sms V p m dr d)) then cnt else cnt + 1)"
proof (cases "result (send_sms V p m dr d)")
  case (Inl e)
  assume "result (process V m dr del delay n i cnt p d) = Inr c"
  with Inl show ?thesis
    by (auto simp: process_raised [OF Inl] run_thn split: sum.splits)
next
  case (Inr b)
  assume "result (process V m dr del delay n i cnt p d) = Inr c"
  with Inr show ?thesis
    by (auto simp: process_sent [OF Inr] run_thn split: sum.splits)
qed

lemma report_unfailing: "0 < n \<Longrightarrow> unfailing (report pct c n)"
  unfolding report_def
  by (intro unfailing_intros; simp)

lemma startup_numbers:
  assumes "startup L fs = (Inr (nums, msg), es)"
  shows "nums \<noteq> []"
proof (cases "fs ''numbers.txt''")
  case None
  with assms show ?thesis
    by (simp add: startup_def get_phone_numbers_def)
next
  case (Some f)
  show ?thesis
  proof (cases "valid_numbers L f = {}")
    case True
    with Some assms show ?thesis
      by (simp add: startup_def get_phone_numbers_cases)
  next
    case False
    with Some assms have "nums = sorted_list_of_set (valid_numbers L f)"
      by (cases "get_message fs ''content.txt''"; cases "fst (get_message fs ''content.txt'')")
        (auto simp: startup_def get_phone_numbers_cases)
    with False finite_valid_numbers [of L f] show ?thesis
      by simp
  qed
qed

lemma session_ok:
  assumes l: "result (launch V serialno d) = Inr u"
    and c: "result (main_loop V msg dr del delay (length nums) 0 0 nums (final (launch V serialno d))) = Inr c"
    and w: "result (report pct c (length nums)
      (final (main_loop V msg dr del delay (length nums) 0 0 nums (final (launch V serialno d))))) = Inr w"
  shows "result (session pct V serialno dr del delay nums msg d) = Inr w"
  using assms by (simp add: session_def run_thn run_bnd)

lemma main_run:
  assumes "startup L fs = (Inr (nums, msg), es)"
    and "result (session pct V serialno dr del delay nums msg d) = Inr w"
  shows "fst (main L fs pct V serialno dr del delay d) = 0"
proof -
  obtain r evs d' where s: "session pct V serialno dr del delay nums msg d = (r, evs, d')"
    by (cases "session pct V serialno dr del delay nums msg d") auto
  with assms(2) have "r = Inr w" by simp
  with s assms(1) show ?thesis
    by (simp add: main_def)
qed

lemma main_completes:
  fixes V :: "'d view_client"
  assumes "back_key_works V" and "\<not> isl (result (launch V serialno d))"
    and "startup L fs = (Inr (nums, msg), es)"
  shows "fst (main L fs pct V serialno dr del delay d) = 0"
proof -
  from assms(2) obtain u where l: "result (launch V serialno d) = Inr u"
    by (cases "result (launch V serialno d)") auto
  let ?d1 = "final (launch V serialno d)"
  let ?loop = "main_loop V msg dr del delay (length nums) 0 0 nums ?d1"
  from main_loop_unfailing [OF assms(1), of msg dr del delay "length nums" 0 0 nums ?d1]
  obtain c where c: "result ?loop = Inr c"
    by (cases "result ?loop") auto
  from startup_numbers [OF assms(3)] have n: "0 < length nums" by simp
  have "unfailing (report pct c (length nums) :: (unit, 'd) prog)"
    by (rule report_unfailing [OF n])
  from unfailingD [OF this, of "final ?loop"]
  obtain w where w: "result (report pct c (length nums) (final ?loop)) = Inr w"
    by blast
  show ?thesis
    by (rule main_run [OF assms(3) session_ok [OF l c w]])
qed

text \<open>
  C2, as stated, fails in one point: the loop does not always go on after a failed send.
  The recovery \<open>go_back_to_main_screen\<close> is called inside the \<open>except\<close> clause, and when it
  raises, the exception leaves the loop and reaches the handler at the top of \<open>main\<close>. On
  a device that drops off once the app is open, with two recipients in the numbers file,
  \<open>send_sms\<close> raises for the first one, the recovery raises too, the process exits with
  code 1, and only two snapshots were ever attempted (one by \<open>send_sms\<close>, one by the
  recovery): the second recipient is never processed.
\<close>

theorem failed_recipient_stops_run_counterexample:
  "fst (startup lib0 fs0) = Inr ([''+14155550100'', ''+14155550101''], ''Hello there'')
   \<and> result (send_sms (dropout 2) ''+14155550100'' ''Hello there'' False 2)
       = Inl (LibraryError ''device offline'')
   \<and> fst (main lib0 fs0 pct0 (dropout 2) None False False 5 0) = 1
   \<and> count_list (fst (snd (main lib0 fs0 pct0 (dropout 2) None False False 5 0))) Dump = 2"
  by code_simp

text \<open>
  C2, amended. When \<open>send_sms\<close> raises for a recipient, the loop logs the failure and calls
  \<open>go_back_to_main_screen\<close>; when that recovery returns, the loop pauses one second and
  goes on with the remaining recipients, the count of successes unchanged. After any pass
  the count is one more exactly when \<open>send_sms\<close> returned. On a device whose back key never
  raises, so that the recovery always returns, the loop never raises, whatever the
  recipients and however many sends fail; and once the app is launched the process then
  ends with exit code 0.
\<close>

theorem failed_recipient_does_not_stop_run:
  "(result (send_sms V p m dr d) = Inl e
    \<and> result (go_back_to_main_screen V (final (send_sms V p m dr d))) = Inr b \<longrightarrow>
      result (process V m dr del delay n i cnt p d) = Inr cnt
      \<and> events (process V m dr del delay n i cnt p d) =
          events (send_sms V p m dr d) @ recover_log p e
          @ events (go_back_to_main_screen V (final (send_sms V p m dr d))) @ [Sleep 1000]
      \<and> main_loop V m dr del delay n i cnt (p # rest) d =
          after (events (process V m dr del delay n i cnt p d))
            (main_loop V m dr del delay n (i + 1) cnt rest
               (final (go_back_to_main_screen V (final (send_sms V p m dr d))))))
   \<and> (\<forall>c. result (process V m dr del delay n i cnt p d) = Inr c \<longrightarrow>
        c = (if isl (result (send_sms V p m dr d)) then cnt else cnt + 1))
   \<and> (back_key_works V \<longrightarrow> \<not> isl (result (main_loop V m dr del delay n i cnt ps d)))
   \<and> (back_key_works V \<and> \<not> isl (result (launch V serialno d))
        \<and> (\<exists>es. startup L fs = (Inr (nums, msg), es)) \<longrightarrow>
      fst (main L fs pct V serialno dr del delay d) = 0)"
proof -
  have 1: "result (process V m dr del delay n i cnt p d) = Inr cnt
      \<and> events (process V m dr del delay n i cnt p d) =
          events (send_sms V p m dr d) @ recover_log p e
          @ events (go_back_to_main_screen V (final (send_sms V p m dr d))) @ [Sleep 1000]
      \<and> main_loop V m dr del delay n i cnt (p # rest) d =
          after (events (process V m dr del delay n i cnt p d))
            (main_loop V m dr del delay n (i + 1) cnt rest
               (final (go_back_to_main_screen V (final (send_sms V p m dr d)))))"
    if r: "result (send_sms V p m dr d) = Inl e"
      and g: "result (go_back_to_main_screen V (final (send_sms V p m dr d))) = Inr b"
  proof -
    have a: "result (process V m dr del delay n i cnt p d) = Inr cnt"
      using g by (simp add: process_raised [OF r] run_thn run_recover)
    have b: "events (process V m dr del delay n i cnt p d) =
          events (send_sms V p m dr d) @ recover_log p e
          @ events (go_back_to_main_screen V (final (send_sms V p m dr d))) @ [Sleep 1000]"
      using g by (simp add: process_raised [OF r] run_thn run_recover)
    have c: "final (process V m dr del delay n i cnt p d) =
          final (go_back_to_main_screen V (final (send_sms V p m dr d)))"
      using g by (simp add: process_raised [OF r] run_thn run_recover)
    from a b c main_loop_step [OF a, of rest] show ?thesis by simp
  qed
  from 1 process_count [of V m dr del delay n i cnt p d]
    main_loop_unfailing [of V m dr del delay n i cnt ps d]
    main_completes [of V serialno d L fs nums msg _ pct dr del delay]
  show ?thesis by blast
qed

lemma emits_mono: "emits P m \<Longrightarrow> (\<And>e. P e \<Longrightarrow> Q e) \<Longrightarrow> emits Q m"
  by (auto simp: emits_def list_all_iff)

lemma delete_last_sms_returns: "result (delete_last_sms V d) = Inr ()"
proof -
  have "unfailing (delete_last_sms V)"
    unfolding delete_last_sms_def
    by (rule unfailing_try) (rule unfailing_print)
  from unfailingD [OF this, of d] show ?thesis by simp
qed

lemma stable_outcome: "stable ends_with_outcome"
  by (simp add: stable_def ends_with_outcome_def)

lemma ensures_print: "Q () [Print s] \<Longrightarrow> ensures Q (print s)"
  by (simp add: ensures_def print_def emit_def)

lemma ensures_block_one: "ensures Q m \<Longrightarrow> ensures Q (block [m])"
  by (auto simp: ensures_def Inr_iffs split: prod.splits sum.splits dest: spec)

lemma delete_body_outcome: "ensures ends_with_outcome (delete_body V)"
  unfolding delete_body_def
  apply (rule ensures_thn [OF _ stable_outcome])
  apply (rule ensures_bnd [OF _ stable_outcome])
  apply (rule ensures_case_option)
   apply (rule ensures_print, simp add: ends_with_outcome_def deletion_outcome_def)
  apply (rule ensures_thn [OF _ stable_outcome])
  apply (rule ensures_bnd [OF _ stable_outcome])
  apply (rule ensures_case_option)
   apply (rule ensures_print, simp add: ends_with_outcome_def deletion_outcome_def)
  apply (rule ensures_thn [OF _ stable_outcome])
  apply (rule ensures_bnd [OF _ stable_outcome])
  apply (rule ensures_case_option)
   apply (rule ensures_print, simp add: ends_with_outcome_def deletion_outcome_def)
  apply (rule ensures_block_Cons [OF _ stable_outcome])
  apply (rule ensures_block_Cons [OF _ stable_outcome])
  apply (rule ensures_block_one)
  apply (rule ensures_print, simp add: ends_with_outcome_def deletion_outcome_def)
  done

lemma delete_last_sms_outcome:
  "events (delete_last_sms V d) \<noteq> [] \<and> deletion_outcome (last (events (delete_last_sms V d)))"
proof -
  have "ensures ends_with_outcome (delete_last_sms V)"
    unfolding delete_last_sms_def
    by (rule ensures_try [OF delete_body_outcome _ stable_outcome])
      (rule ensures_print, simp add: ends_with_outcome_def deletion_outcome_def)
  from ensuresD [OF this, of d "()" "events (delete_last_sms V d)" "final (delete_last_sms V d)"]
    delete_last_sms_returns [of V d]
  show ?thesis
    by (cases "delete_last_sms V d") (simp add: ends_with_outcome_def)
qed

lemma delete_no_conversation:
  "result (dump V d) = Inr () \<Longrightarrow>
   result (findViewById V LAST_CHAT_ID (final (dump V d))) = Inr None \<Longrightarrow>
   events (delete_last_sms V d) =
     [Dump, FindViewById LAST_CHAT_ID, Print '' Could not find conversation to delete'']"
  by (simp add: delete_last_sms_def delete_body_def run_try_except run_thn run_bnd dump_def
      findViewById_def)

text \<open>
  The branches of \<open>delete_last_sms\<close> one by one: what is logged when the delete button or
  the confirmation button is missing, when everything is found, and when an exception is
  caught; and that the line of success is logged only when all three lookups succeed.
\<close>

lemmas delete_stage_defs = delete_last_sms_def delete_body_def find_row_def
  find_delete_button_def find_confirm_button_def

lemma delete_no_button:
  assumes "result (find_row V d) = Inr (Some lc)"
    and "result (find_delete_button V lc (final (find_row V d))) = Inr None"
  shows "result (delete_last_sms V d) = Inr ()"
    and "events (delete_last_sms V d) =
           [Dump, FindViewById LAST_CHAT_ID,
            Drag (getXY lc) (getXY lc) 1000 1, Sleep 2000, Dump, FindViewById DELETE_CHAT_ID,
            Print '' Could not find delete button'']"
  using assms
  by (auto simp: delete_stage_defs run_thn run_bnd run_try_except prim_defs run_call
      split: sum.splits)

lemma delete_no_confirmation:
  assumes "result (find_row V d) = Inr (Some lc)"
    and "result (find_delete_button V lc (final (find_row V d))) = Inr (Some db)"
    and "result (find_confirm_button V db
           (final (find_delete_button V lc (final (find_row V d))))) = Inr None"
  shows "result (delete_last_sms V d) = Inr ()"
    and "events (delete_last_sms V d) =
           [Dump, FindViewById LAST_CHAT_ID,
            Drag (getXY lc) (getXY lc) 1000 1, Sleep 2000, Dump, FindViewById DELETE_CHAT_ID,
            Touch db, Sleep 1000, Dump, FindViewById CONFIRM_ID,
            Print '' Could not find delete confirmation'']"
  using assms
  by (auto simp: delete_stage_defs run_thn run_bnd run_try_except prim_defs run_call
      split: sum.splits)

lemma delete_confirmed:
  assumes "result (find_row V d) = Inr (Some lc)"
    and "result (find_delete_button V lc (final (find_row V d))) = Inr (Some db)"
    and "result (find_confirm_button V db
           (final (find_delete_button V lc (final (find_row V d))))) = Inr (Some cb)"
    and "result (touch V cb (final (find_confirm_button V db
           (final (find_delete_button V lc (final (find_row V d))))))) = Inr ()"
  shows "result (delete_last_sms V d) = Inr ()"
    and "events (delete_last_sms V d) =
           [Dump, FindViewById LAST_CHAT_ID,
            Drag (getXY lc) (getXY lc) 1000 1, Sleep 2000, Dump, FindViewById DELETE_CHAT_ID,
            Touch db, Sleep 1000, Dump, FindViewById CONFIRM_ID,
            Touch cb, Sleep 2000, Print '' Conversation deleted'']"
  using assms
  by (auto simp: delete_stage_defs run_thn run_bnd run_try_except prim_defs run_call
      split: sum.splits)

lemma delete_caught:
  assumes "result (delete_body V d) = Inl e"
  shows "result (delete_last_sms V d) = Inr ()"
    and "events (delete_last_sms V d) =
           events (delete_body V d) @ [Print ('' Error deleting conversation: '' @ str_exn e)]"
  using assms by (simp_all add: delete_last_sms_def run_try_except)

lemma delete_not_caught:
  assumes "result (delete_body V d) = Inr u"
  shows "delete_last_sms V d = delete_body V d"
  using assms by (cases "delete_body V d") (simp add: delete_last_sms_def try_except_def)


lemma thn_bnd: "thn m (bnd n f) = bnd (thn m n) f"
proof
  fix d
  show "thn m (bnd n f) d = bnd (thn m n) f d"
  proof (cases "m d")
    case (fields r es d')
    show ?thesis
    proof (cases r)
      case (Inl e)
      with fields show ?thesis by (simp add: thn_def bnd_def)
    next
      case (Inr x)
      with fields show ?thesis
        by (cases "n d'"; cases "fst (n d')"; cases "f (projr (fst (n d'))) (snd (snd (n d')))")
          (simp_all add: thn_def bnd_def)
    qed
  qed
qed

lemma delete_body_stages:
  "delete_body V =
     bnd (find_row V) (\<lambda>last_chat.
       case last_chat of
         None \<Rightarrow> print '' Could not find conversation to delete''
       | Some lc \<Rightarrow>
           bnd (find_delete_button V lc) (\<lambda>delete_button.
             case delete_button of
               Some db \<Rightarrow>
                 bnd (find_confirm_button V db) (\<lambda>confirm_button.
                   case confirm_button of
                     Some cb \<Rightarrow> block [touch V cb, sleep 2000, print '' Conversation deleted'']
                   | None \<Rightarrow> print '' Could not find delete confirmation'')
             | None \<Rightarrow> print '' Could not find delete button''))"
  unfolding delete_body_def find_row_def find_delete_button_def find_confirm_button_def
    thn_bnd [symmetric]
  by (rule refl)

lemma stages_not_deleted:
  "Print '' Conversation deleted'' \<notin> set (events (find_row V d))"
  "Print '' Conversation deleted'' \<notin> set (events (find_delete_button V lc d))"
  "Print '' Conversation deleted'' \<notin> set (events (find_confirm_button V db d))"
proof -
  have "emits (\<lambda>e. e \<noteq> Print '' Conversation deleted'') (find_row V)"
    unfolding find_row_def by (intro emits_intros; simp)
  from emitsD [OF this, of d]
  show "Print '' Conversation deleted'' \<notin> set (events (find_row V d))"
    by (auto simp: list_all_iff)
  have "emits (\<lambda>e. e \<noteq> Print '' Conversation deleted'') (find_delete_button V lc)"
    unfolding find_delete_button_def by (intro emits_intros; simp)
  from emitsD [OF this, of d]
  show "Print '' Conversation deleted'' \<notin> set (events (find_delete_button V lc d))"
    by (auto simp: list_all_iff)
  have "emits (\<lambda>e. e \<noteq> Print '' Conversation deleted'') (find_confirm_button V db)"
    unfolding find_confirm_button_def by (intro emits_intros; simp)
  from emitsD [OF this, of d]
  show "Print '' Conversation deleted'' \<notin> set (events (find_confirm_button V db d))"
    by (auto simp: list_all_iff)
qed

lemma deleted_only_when_confirmed:
  assumes del: "Print '' Conversation deleted'' \<in> set (events (delete_last_sms V d))"
  shows "\<exists>lc db cb.
           result (find_row V d) = Inr (Some lc)
           \<and> result (find_delete_button V lc (final (find_row V d))) = Inr (Some db)
           \<and> result (find_confirm_button V db
                 (final (find_delete_button V lc (final (find_row V d))))) = Inr (Some cb)"
proof (cases "result (find_row V d)")
  case (Inl e)
  with del stages_not_deleted(1) [of V d] show ?thesis
    by (simp add: delete_last_sms_def delete_body_stages run_bnd run_try_except)
next
  case row: (Inr last_chat)
  show ?thesis
  proof (cases last_chat)
    case None
    with row del stages_not_deleted(1) [of V d] show ?thesis
      by (simp add: delete_last_sms_def delete_body_stages run_bnd run_try_except)
  next
    case (Some lc)
    let ?d1 = "final (find_row V d)"
    show ?thesis
    proof (cases "result (find_delete_button V lc ?d1)")
      case (Inl e)
      with row Some del stages_not_deleted(1) [of V d] stages_not_deleted(2) [of V lc ?d1]
      show ?thesis
        by (simp add: delete_last_sms_def delete_body_stages run_bnd run_try_except)
    next
      case button: (Inr delete_button)
      show ?thesis
      proof (cases delete_button)
        case None
        with row Some button del stages_not_deleted(1) [of V d]
          stages_not_deleted(2) [of V lc ?d1]
        show ?thesis
          by (simp add: delete_last_sms_def delete_body_stages run_bnd run_try_except)
      next
        case db: (Some db)
        let ?d2 = "final (find_delete_button V lc ?d1)"
        show ?thesis
        proof (cases "result (find_confirm_button V db ?d2)")
          case (Inl e)
          with row Some button db del stages_not_deleted(1) [of V d]
            stages_not_deleted(2) [of V lc ?d1] stages_not_deleted(3) [of V db ?d2]
          show ?thesis
            by (simp add: delete_last_sms_def delete_body_stages run_bnd run_try_except)
        next
          case confirm: (Inr confirm_button)
          show ?thesis
          proof (cases confirm_button)
            case None
            with row Some button db confirm del stages_not_deleted(1) [of V d]
              stages_not_deleted(2) [of V lc ?d1] stages_not_deleted(3) [of V db ?d2]
            show ?thesis
              by (simp add: delete_last_sms_def delete_body_stages run_bnd run_try_except)
          next
            case (Some cb)
            with row \<open>last_chat = Some lc\<close> button db confirm show ?thesis
              by blast
          qed
        qed
      qed
    qed
  qed
qed

lemma after_send_prefix:
  "result (go_back_to_main_screen V d) = Inr b \<Longrightarrow>
   prefix ([Print ''Returning to main Messages screen...''] @ events (go_back_to_main_screen V d)
           @ (if del then Print ''Deleting conversation...''
                          # events (delete_last_sms V (final (go_back_to_main_screen V d)))
              else []))
     (events (after_send V del delay n i d))"
  by (simp add: after_send_def run_thn delete_last_sms_returns split: sum.split)

lemma process_sent_prefix:
  assumes "result (send_sms V p m dr d) = Inr b"
    and "result (go_back_to_main_screen V (final (send_sms V p m dr d))) = Inr b'"
  shows "prefix (events (send_sms V p m dr d) @ [Print ''Returning to main Messages screen...'']
            @ events (go_back_to_main_screen V (final (send_sms V p m dr d)))
            @ (if del then
                 Print ''Deleting conversation...''
                 # events (delete_last_sms V
                     (final (go_back_to_main_screen V (final (send_sms V p m dr d)))))
               else []))
          (events (process V m dr del delay n i cnt p d))"
proof -
  let ?d1 = "final (send_sms V p m dr d)"
  from after_send_prefix [OF assms(2), of del delay n i]
  obtain zs where "events (after_send V del delay n i ?d1) =
      ([Print ''Returning to main Messages screen...''] @ events (go_back_to_main_screen V ?d1)
           @ (if del then Print ''Deleting conversation...''
                          # events (delete_last_sms V (final (go_back_to_main_screen V ?d1)))
              else [])) @ zs"
    by (auto simp: prefix_def)
  then show ?thesis
    by (simp add: process_sent [OF assms(1)] run_thn run_try_except prefix_def)
qed

lemma weaker: "no_cleanup_or_delay delay e \<Longrightarrow> \<not> cleanup_event e"
  by (simp add: no_cleanup_or_delay_def)

lemma after_send_no_cleanup:
  "emits (\<lambda>e. \<not> cleanup_event e) (after_send V False delay n i)"
  unfolding after_send_def
  by (intro emits_intros emits_mono [OF go_back_no_cleanup weaker]; simp add: cleanup_event_def)

lemma process_no_cleanup:
  "emits (\<lambda>e. \<not> cleanup_event e) (process V m dr False delay n i cnt p)"
  unfolding emits_def
proof
  fix d
  let ?d1 = "final (send_sms V p m dr d)"
  have s: "list_all (\<lambda>e. \<not> cleanup_event e) (events (send_sms V p m dr d))"
    unfolding send_sms_def
    by (rule emitsD [OF emits_mono [OF send_loop_no_cleanup weaker]])
  have r: "emits (\<lambda>e. \<not> cleanup_event e) (recover V p e)" for e
    by (rule emits_mono [OF recover_no_cleanup weaker])
  show "list_all (\<lambda>e. \<not> cleanup_event e) (events (process V m dr False delay n i cnt p d))"
  proof (cases "result (send_sms V p m dr d)")
    case (Inl e)
    from emitsD [OF emits_thn [OF r emits_ret], of e cnt ?d1] s show ?thesis
      by (simp add: process_raised [OF Inl])
  next
    case (Inr b)
    have "emits (\<lambda>e. \<not> cleanup_event e)
            (thn (try_except (after_send V False delay n i) (recover V p)) (ret (cnt + 1)))"
      by (intro emits_intros after_send_no_cleanup r)
    from emitsD [OF this, of ?d1] s show ?thesis
      by (simp add: process_sent [OF Inr])
  qed
qed

lemma main_loop_no_cleanup:
  "emits (\<lambda>e. \<not> cleanup_event e) (main_loop V m dr False delay n i cnt ps)"
  by (induction ps arbitrary: i cnt) (auto intro!: emits_intros process_no_cleanup)

text \<open>
  C9, as stated, fails in one point: a successful send is not always followed by the
  deletion when delete mode is on. \<open>go_back_to_main_screen\<close> stands between the two and can
  raise; the deletion is then skipped. On a device that drops off right after the message
  is sent, the message is sent and no deletion is announced.
\<close>

theorem deletion_counterexample:
  "result (send_sms (dropout 16) ''+14155550100'' ''Hello'' False 0) = Inr True
   \<and> Print ''Message sent successfully''
       \<in> set (events (process (dropout 16) ''Hello'' False True 5 1 0 0 ''+14155550100'' 0))
   \<and> Print ''Deleting conversation...''
       \<notin> set (events (process (dropout 16) ''Hello'' False True 5 1 0 0 ''+14155550100'' 0))"
  by code_simp

text \<open>
  C9, amended. \<open>delete_last_sms\<close> never raises: it always returns, and the last thing it
  does is log that the conversation is deleted, that one of the three affordances is
  missing, or that an error was caught. Each case is settled: when the conversation row
  (\<open>LAST_CHAT_ID\<close>) is missing it logs that warning right after the lookup; when the row
  is found and the delete button (\<open>DELETE_CHAT_ID\<close>) is missing it logs that warning
  after the long press and the lookup; when both are found and the confirmation button
  (\<open>CONFIRM_ID\<close>) is missing it logs that warning after the touch and the lookup; when
  any step raises \<open>e\<close>, what was done so far is followed by the line of the error
  \<open>e\<close>; and the line of success is logged only when all three lookups succeed.
  After a successful send whose return to the main screen returned, the deletion is
  announced and run next when delete mode is on, and is not when delete mode is off. With
  delete mode off the whole loop produces no event of deleting a conversation.
\<close>

theorem deletion_best_effort:
  "result (delete_last_sms V d) = Inr ()
   \<and> events (delete_last_sms V d) \<noteq> []
   \<and> deletion_outcome (last (events (delete_last_sms V d)))
   \<and> (result (dump V d) = Inr ()
       \<and> result (findViewById V LAST_CHAT_ID (final (dump V d))) = Inr None \<longrightarrow>
       events (delete_last_sms V d) =
         [Dump, FindViewById LAST_CHAT_ID, Print '' Could not find conversation to delete''])
   \<and> (result (find_row V d) = Inr (Some lc)
       \<and> result (find_delete_button V lc (final (find_row V d))) = Inr None \<longrightarrow>
       events (delete_last_sms V d) =
         [Dump, FindViewById LAST_CHAT_ID,
          Drag (getXY lc) (getXY lc) 1000 1, Sleep 2000, Dump, FindViewById DELETE_CHAT_ID,
          Print '' Could not find delete button''])
   \<and> (result (find_row V d) = Inr (Some lc)
       \<and> result (find_delete_button V lc (final (find_row V d))) = Inr (Some db)
       \<and> result (find_confirm_button V db
             (final (find_delete_button V lc (final (find_row V d))))) = Inr None \<longrightarrow>
       events (delete_last_sms V d) =
         [Dump, FindViewById LAST_CHAT_ID,
          Drag (getXY lc) (getXY lc) 1000 1, Sleep 2000, Dump, FindViewById DELETE_CHAT_ID,
          Touch db, Sleep 1000, Dump, FindViewById CONFIRM_ID,
          Print '' Could not find delete confirmation''])
   \<and> (result (delete_body V d) = Inl e \<longrightarrow>
       events (delete_last_sms V d) =
         events (delete_body V d) @ [Print ('' Error deleting conversation: '' @ str_exn e)])
   \<and> (Print '' Conversation deleted'' \<in> set (events (delete_last_sms V d)) \<longrightarrow>
       (\<exists>lc db cb.
          result (find_row V d) = Inr (Some lc)
          \<and> result (find_delete_button V lc (final (find_row V d))) = Inr (Some db)
          \<and> result (find_confirm_button V db
                (final (find_delete_button V lc (final (find_row V d))))) = Inr (Some cb)))
   \<and> (result (send_sms V p m dr d) = Inr b
       \<and> result (go_back_to_main_screen V (final (send_sms V p m dr d))) = Inr b' \<longrightarrow>
       prefix (events (send_sms V p m dr d) @ [Print ''Returning to main Messages screen...'']
               @ events (go_back_to_main_screen V (final (send_sms V p m dr d)))
               @ (if del then
                    Print ''Deleting conversation...''
                    # events (delete_last_sms V
                        (final (go_back_to_main_screen V (final (send_sms V p m dr d)))))
                  else []))
         (events (process V m dr del delay n i cnt p d)))
   \<and> list_all (\<lambda>e. \<not> cleanup_event e) (events (main_loop V m dr False delay n i cnt ps d))"
proof (intro conjI impI; (elim conjE)?)
  show "result (delete_last_sms V d) = Inr ()"
    by (rule delete_last_sms_returns)
  show "events (delete_last_sms V d) \<noteq> []"
    using delete_last_sms_outcome [of V d] by (rule conjunct1)
  show "deletion_outcome (last (events (delete_last_sms V d)))"
    using delete_last_sms_outcome [of V d] by (rule conjunct2)
  show "events (delete_last_sms V d) =
         [Dump, FindViewById LAST_CHAT_ID, Print '' Could not find conversation to delete'']"
    if "result (dump V d) = Inr ()"
      and "result (findViewById V LAST_CHAT_ID (final (dump V d))) = Inr None"
    using that by (rule delete_no_conversation)
  show "events (delete_last_sms V d) =
         [Dump, FindViewById LAST_CHAT_ID,
          Drag (getXY lc) (getXY lc) 1000 1, Sleep 2000, Dump, FindViewById DELETE_CHAT_ID,
          Print '' Could not find delete button'']"
    if "result (find_row V d) = Inr (Some lc)"
      and "result (find_delete_button V lc (final (find_row V d))) = Inr None"
    using that by (rule delete_no_button(2))
  show "events (delete_last_sms V d) =
         [Dump, FindViewById LAST_CHAT_ID,
          Drag (getXY lc) (getXY lc) 1000 1, Sleep 2000, Dump, FindViewById DELETE_CHAT_ID,
          Touch db, Sleep 1000, Dump, FindViewById CONFIRM_ID,
          Print '' Could not find delete confirmation'']"
    if "result (find_row V d) = Inr (Some lc)"
      and "result (find_delete_button V lc (final (find_row V d))) = Inr (Some db)"
      and "result (find_confirm_button V db
             (final (find_delete_button V lc (final (find_row V d))))) = Inr None"
    using that by (rule delete_no_confirmation(2))
  show "events (delete_last_sms V d) =
         events (delete_body V d) @ [Print ('' Error deleting conversation: '' @ str_exn e)]"
    if "result (delete_body V d) = Inl e"
    using that by (rule delete_caught(2))
  show "\<exists>lc db cb.
          result (find_row V d) = Inr (Some lc)
          \<and> result (find_delete_button V lc (final (find_row V d))) = Inr (Some db)
          \<and> result (find_confirm_button V db
                (final (find_delete_button V lc (final (find_row V d))))) = Inr (Some cb)"
    if "Print '' Conversation deleted'' \<in> set (events (delete_last_sms V d))"
    using that by (rule deleted_only_when_confirmed)
  show "prefix (events (send_sms V p m dr d) @ [Print ''Returning to main Messages screen...'']
               @ events (go_back_to_main_screen V (final (send_sms V p m dr d)))
               @ (if del then
                    Print ''Deleting conversation...''
                    # events (delete_last_sms V
                        (final (go_back_to_main_screen V (final (send_sms V p m dr d)))))
                  else []))
         (events (process V m dr del delay n i cnt p d))"
    if "result (send_sms V p m dr d) = Inr b"
      and "result (go_back_to_main_screen V (final (send_sms V p m dr d))) = Inr b'"
    using that by (rule process_sent_prefix)
  show "list_all (\<lambda>e. \<not> cleanup_event e) (events (main_loop V m dr False delay n i cnt ps d))"
    by (rule emitsD [OF main_loop_no_cleanup])
qed

section \<open>Runs on the simulated devices\<close>

text \<open>
  The theorems about the loop, exercised on concrete devices: a device whose snapshot
  raises, so that every send fails after three passes and the recovery falls back to the
  back key; a run over five recipients in which the third fails on all three passes and
  the report reads 4/5; and a device on which everything is found.
\<close>

theorem failed_recipient_skips_cleanup_and_delay_witness:
  "result (send_sms blind ''+14155550100'' ''Hello'' False ()) = Inl (failed_to_send ''+14155550100'')
   \<and> events (process blind ''Hello'' False True 5 2 0 0 ''+14155550100'' ()) =
       events (send_sms blind ''+14155550100'' ''Hello'' False ())
       @ recover_log ''+14155550100'' (failed_to_send ''+14155550100'')
       @ events (go_back_to_main_screen blind
           (final (send_sms blind ''+14155550100'' ''Hello'' False ()))) @ [Sleep 1000]
   \<and> result (process blind ''Hello'' False True 5 2 0 0 ''+14155550100'' ()) = Inr 0
   \<and> list_all (no_cleanup_or_delay 5)
       (events (process blind ''Hello'' False True 5 2 0 0 ''+14155550100'' ()))
   \<and> main_loop blind ''Hello'' False True 5 2 0 0 [''+14155550100'', ''+14155550101''] () =
       after (events (process blind ''Hello'' False True 5 2 0 0 ''+14155550100'' ()))
         (main_loop blind ''Hello'' False True 5 2 (0 + 1) 0 [''+14155550101'']
            (final (process blind ''Hello'' False True 5 2 0 0 ''+14155550100'' ())))"
proof -
  have s: "result (send_sms blind ''+14155550100'' ''Hello'' False ())
             = Inl (failed_to_send ''+14155550100'')"
    by code_simp
  have g: "result (go_back_to_main_screen blind
                     (final (send_sms blind ''+14155550100'' ''Hello'' False ()))) = Inr False"
    by code_simp
  note th = failed_recipient_skips_cleanup_and_delay
        [of blind "''+14155550100''" "''Hello''" False "()" "failed_to_send ''+14155550100''"
            True 5 2 0 0 "[''+14155550101'']"]
  have 1: "events (process blind ''Hello'' False True 5 2 0 0 ''+14155550100'' ()) =
       events (send_sms blind ''+14155550100'' ''Hello'' False ())
       @ recover_log ''+14155550100'' (failed_to_send ''+14155550100'')
       @ events (go_back_to_main_screen blind
           (final (send_sms blind ''+14155550100'' ''Hello'' False ()))) @ [Sleep 1000]"
    using th s g by simp
  have 2: "result (process blind ''Hello'' False True 5 2 0 0 ''+14155550100'' ()) = Inr 0"
    using th s g by simp
  have 3: "list_all (no_cleanup_or_delay 5)
       (events (process blind ''Hello'' False True 5 2 0 0 ''+14155550100'' ()))"
    using th s by blast
  have 4: "main_loop blind ''Hello'' False True 5 2 0 0 [''+14155550100'', ''+14155550101''] () =
       after (events (process blind ''Hello'' False True 5 2 0 0 ''+14155550100'' ()))
         (main_loop blind ''Hello'' False True 5 2 (0 + 1) 0 [''+14155550101'']
            (final (process blind ''Hello'' False True 5 2 0 0 ''+14155550100'' ())))"
    using th s 2 by blast
  from s 1 2 3 4 show ?thesis
    by blast
qed

theorem failed_recipient_does_not_stop_run_witness:
  "result (send_sms blind ''+14155550100'' ''Hello'' False ()) = Inl (failed_to_send ''+14155550100'')
   \<and> result (go_back_to_main_screen blind (final (send_sms blind ''+14155550100'' ''Hello'' False ())))
       = Inr False
   \<and> result (process blind ''Hello'' False False 5 2 0 0 ''+14155550100'' ()) = Inr 0
   \<and> main_loop blind ''Hello'' False False 5 2 0 0 [''+14155550100'', ''+14155550101''] () =
       after (events (process blind ''Hello'' False False 5 2 0 0 ''+14155550100'' ()))
         (main_loop blind ''Hello'' False False 5 2 (0 + 1) 0 [''+14155550101'']
            (final (go_back_to_main_screen blind
               (final (send_sms blind ''+14155550100'' ''Hello'' False ())))))
   \<and> back_key_works (phone 17 20)
   \<and> \<not> isl (result (launch (phone 17 20) None 0))
   \<and> startup lib0 fs5 =
       (Inr ([''+14155550101'', ''+14155550102'', ''+14155550103'', ''+14155550104'',
              ''+14155550105''], ''Hello there''), [])
   \<and> result (send_sms (phone 17 20) ''+14155550103'' ''Hello there'' False 16)
       = Inl (failed_to_send ''+14155550103'')
   \<and> fst (main lib0 fs5 pct0 (phone 17 20) None False False 5 0) = 0
   \<and> Print ''    Successfully processed: 4/5 messages''
       \<in> set (fst (snd (main lib0 fs5 pct0 (phone 17 20) None False False 5 0)))"
proof -
  have s: "result (send_sms blind ''+14155550100'' ''Hello'' False ())
             = Inl (failed_to_send ''+14155550100'')"
    by code_simp
  have g: "result (go_back_to_main_screen blind (final (send_sms blind ''+14155550100'' ''Hello'' False ())))
             = Inr False"
    by code_simp
  have k: "back_key_works (phone 17 20)"
    by (simp add: back_key_works_def phone_def)
  have l: "\<not> isl (result (launch (phone 17 20) None 0))"
    by code_simp
  have u: "startup lib0 fs5 =
       (Inr ([''+14155550101'', ''+14155550102'', ''+14155550103'', ''+14155550104'',
              ''+14155550105''], ''Hello there''), [])"
    by code_simp
  have t: "result (send_sms (phone 17 20) ''+14155550103'' ''Hello there'' False 16)
       = Inl (failed_to_send ''+14155550103'')"
    by code_simp
  have r: "Print ''    Successfully processed: 4/5 messages''
       \<in> set (fst (snd (main lib0 fs5 pct0 (phone 17 20) None False False 5 0)))"
    by code_simp
  note th1 = failed_recipient_does_not_stop_run
        [of blind "''+14155550100''" "''Hello''" False "()" "failed_to_send ''+14155550100''"
            False False 5 2 0 0 "[''+14155550101'']" "[]" None lib0 fs_none "[]" "[]" pct0]
  note th2 = failed_recipient_does_not_stop_run
        [of "phone 17 20" "''+14155550103''" "''Hello there''" False 0
            "failed_to_send ''+14155550103''" True False 5 5 2 2 "[]" "[]" None lib0 fs5
            "[''+14155550101'', ''+14155550102'', ''+14155550103'', ''+14155550104'', ''+14155550105'']"
            "''Hello there''" pct0]
  have 1: "result (process blind ''Hello'' False False 5 2 0 0 ''+14155550100'' ()) = Inr 0"
    using th1 s g by blast
  have 2: "main_loop blind ''Hello'' False False 5 2 0 0 [''+14155550100'', ''+14155550101''] () =
       after (events (process blind ''Hello'' False False 5 2 0 0 ''+14155550100'' ()))
         (main_loop blind ''Hello'' False False 5 2 (0 + 1) 0 [''+14155550101'']
            (final (go_back_to_main_screen blind
               (final (send_sms blind ''+14155550100'' ''Hello'' False ())))))"
    using th1 s g by blast
  have 3: "fst (main lib0 fs5 pct0 (phone 17 20) None False False 5 0) = 0"
    using th2 k l u by blast
  from s g k l u t r 1 2 3 show ?thesis
    by blast
qed

theorem deletion_best_effort_witness:
  "result (delete_last_sms bare ()) = Inr ()
   \<and> result (dump bare ()) = Inr ()
   \<and> result (findViewById bare LAST_CHAT_ID (final (dump bare ()))) = Inr None
   \<and> events (delete_last_sms bare ()) =
       [Dump, FindViewById LAST_CHAT_ID, Print '' Could not find conversation to delete'']
   \<and> result (find_row (showing [LAST_CHAT_ID]) ()) = Inr (Some (button LAST_CHAT_ID))
   \<and> result (find_delete_button (showing [LAST_CHAT_ID]) (button LAST_CHAT_ID)
         (final (find_row (showing [LAST_CHAT_ID]) ()))) = Inr None
   \<and> events (delete_last_sms (showing [LAST_CHAT_ID]) ()) =
       [Dump, FindViewById LAST_CHAT_ID,
        Drag (getXY (button LAST_CHAT_ID)) (getXY (button LAST_CHAT_ID)) 1000 1, Sleep 2000,
        Dump, FindViewById DELETE_CHAT_ID,
        Print '' Could not find delete button'']
   \<and> result (find_row (showing [LAST_CHAT_ID, DELETE_CHAT_ID]) ())
       = Inr (Some (button LAST_CHAT_ID))
   \<and> result (find_delete_button (showing [LAST_CHAT_ID, DELETE_CHAT_ID]) (button LAST_CHAT_ID)
         (final (find_row (showing [LAST_CHAT_ID, DELETE_CHAT_ID]) ())))
       = Inr (Some (button DELETE_CHAT_ID))
   \<and> result (find_confirm_button (showing [LAST_CHAT_ID, DELETE_CHAT_ID])
         (button DELETE_CHAT_ID)
         (final (find_delete_button (showing [LAST_CHAT_ID, DELETE_CHAT_ID])
            (button LAST_CHAT_ID)
            (final (find_row (showing [LAST_CHAT_ID, DELETE_CHAT_ID]) ()))))) = Inr None
   \<and> events (delete_last_sms (showing [LAST_CHAT_ID, DELETE_CHAT_ID]) ()) =
       [Dump, FindViewById LAST_CHAT_ID,
        Drag (getXY (button LAST_CHAT_ID)) (getXY (button LAST_CHAT_ID)) 1000 1, Sleep 2000,
        Dump, FindViewById DELETE_CHAT_ID,
        Touch (button DELETE_CHAT_ID), Sleep 1000, Dump, FindViewById CONFIRM_ID,
        Print '' Could not find delete confirmation'']
   \<and> result (delete_body offline ()) = Inl (LibraryError ''device offline'')
   \<and> result (delete_last_sms offline ()) = Inr ()
   \<and> events (delete_last_sms offline ()) =
       events (delete_body offline ())
       @ [Print ('' Error deleting conversation: '' @ str_exn (LibraryError ''device offline''))]
   \<and> Print '' Conversation deleted''
       \<in> set (events (delete_last_sms (showing [LAST_CHAT_ID, DELETE_CHAT_ID, CONFIRM_ID]) ()))
   \<and> (\<exists>lc db cb.
         result (find_row (showing [LAST_CHAT_ID, DELETE_CHAT_ID, CONFIRM_ID]) ())
           = Inr (Some lc)
         \<and> result (find_delete_button (showing [LAST_CHAT_ID, DELETE_CHAT_ID, CONFIRM_ID]) lc
               (final (find_row (showing [LAST_CHAT_ID, DELETE_CHAT_ID, CONFIRM_ID]) ())))
           = Inr (Some db)
         \<and> result (find_confirm_button (showing [LAST_CHAT_ID, DELETE_CHAT_ID, CONFIRM_ID]) db
               (final (find_delete_button (showing [LAST_CHAT_ID, DELETE_CHAT_ID, CONFIRM_ID]) lc
                  (final (find_row (showing [LAST_CHAT_ID, DELETE_CHAT_ID, CONFIRM_ID]) ())))))
           = Inr (Some cb))
   \<and> result (send_sms (phone 0 0) ''+14155550100'' ''Hello'' False 0) = Inr True
   \<and> result (go_back_to_main_screen (phone 0 0)
         (final (send_sms (phone 0 0) ''+14155550100'' ''Hello'' False 0))) = Inr True
   \<and> prefix (events (send_sms (phone 0 0) ''+14155550100'' ''Hello'' False 0)
             @ [Print ''Returning to main Messages screen...'']
             @ events (go_back_to_main_screen (phone 0 0)
                 (final (send_sms (phone 0 0) ''+14155550100'' ''Hello'' False 0)))
             @ (if True then
                  Print ''Deleting conversation...''
                  # events (delete_last_sms (phone 0 0)
                      (final (go_back_to_main_screen (phone 0 0)
                         (final (send_sms (phone 0 0) ''+14155550100'' ''Hello'' False 0)))))
                else []))
       (events (process (phone 0 0) ''Hello'' False True 5 1 0 0 ''+14155550100'' 0))
   \<and> list_all (\<lambda>e. \<not> cleanup_event e)
       (events (main_loop (phone 0 0) ''Hello'' False False 5 1 0 0 [''+14155550100''] 0))"
proof -
  let ?row = "showing [LAST_CHAT_ID]"
  let ?two = "showing [LAST_CHAT_ID, DELETE_CHAT_ID]"
  let ?all = "showing [LAST_CHAT_ID, DELETE_CHAT_ID, CONFIRM_ID]"
  have a: "result (dump bare ()) = Inr ()"
    "result (findViewById bare LAST_CHAT_ID (final (dump bare ()))) = Inr None"
    by code_simp+
  have r: "result (find_row ?row ()) = Inr (Some (button LAST_CHAT_ID))"
    "result (find_delete_button ?row (button LAST_CHAT_ID) (final (find_row ?row ()))) = Inr None"
    by code_simp+
  have t: "result (find_row ?two ()) = Inr (Some (button LAST_CHAT_ID))"
    "result (find_delete_button ?two (button LAST_CHAT_ID) (final (find_row ?two ())))
       = Inr (Some (button DELETE_CHAT_ID))"
    "result (find_confirm_button ?two (button DELETE_CHAT_ID)
         (final (find_delete_button ?two (button LAST_CHAT_ID) (final (find_row ?two ())))))
       = Inr None"
    by code_simp+
  have x: "result (delete_body offline ()) = Inl (LibraryError ''device offline'')"
    by code_simp
  have y: "Print '' Conversation deleted'' \<in> set (events (delete_last_sms ?all ()))"
    by code_simp
  have b: "result (send_sms (phone 0 0) ''+14155550100'' ''Hello'' False 0) = Inr True"
    by code_simp
  have c: "result (go_back_to_main_screen (phone 0 0)
         (final (send_sms (phone 0 0) ''+14155550100'' ''Hello'' False 0))) = Inr True"
    by code_simp
  note th_bare = deletion_best_effort [where V = bare and d = "()"]
  note th_row = deletion_best_effort [where V = ?row and d = "()" and lc = "button LAST_CHAT_ID"]
  note th_two = deletion_best_effort [where V = ?two and d = "()" and lc = "button LAST_CHAT_ID"
      and db = "button DELETE_CHAT_ID"]
  note th_off = deletion_best_effort [where V = offline and d = "()"
      and e = "LibraryError ''device offline''"]
  note th_all = deletion_best_effort [where V = ?all and d = "()"]
  note th_phone = deletion_best_effort [where V = "phone 0 0" and d = 0
      and p = "''+14155550100''" and m = "''Hello''" and dr = False and b = True and b' = True
      and del = True and delay = 5 and n = 1 and i = 0 and cnt = 0 and ps = "[''+14155550100'']"]
  have 1: "result (delete_last_sms bare ()) = Inr ()"
    using th_bare by blast
  have 2: "events (delete_last_sms bare ()) =
       [Dump, FindViewById LAST_CHAT_ID, Print '' Could not find conversation to delete'']"
    using th_bare a by blast
  have 3: "events (delete_last_sms ?row ()) =
       [Dump, FindViewById LAST_CHAT_ID,
        Drag (getXY (button LAST_CHAT_ID)) (getXY (button LAST_CHAT_ID)) 1000 1, Sleep 2000,
        Dump, FindViewById DELETE_CHAT_ID,
        Print '' Could not find delete button'']"
    using th_row r by blast
  have 4: "events (delete_last_sms ?two ()) =
       [Dump, FindViewById LAST_CHAT_ID,
        Drag (getXY (button LAST_CHAT_ID)) (getXY (button LAST_CHAT_ID)) 1000 1, Sleep 2000,
        Dump, FindViewById DELETE_CHAT_ID,
        Touch (button DELETE_CHAT_ID), Sleep 1000, Dump, FindViewById CONFIRM_ID,
        Print '' Could not find delete confirmation'']"
    using th_two t by blast
  have 5: "result (delete_last_sms offline ()) = Inr ()"
    using th_off by blast
  have 6: "events (delete_last_sms offline ()) =
       events (delete_body offline ())
       @ [Print ('' Error deleting conversation: '' @ str_exn (LibraryError ''device offline''))]"
    using th_off x by blast
  have 7: "\<exists>lc db cb.
         result (find_row ?all ()) = Inr (Some lc)
         \<and> result (find_delete_button ?all lc (final (find_row ?all ()))) = Inr (Some db)
         \<and> result (find_confirm_button ?all db
               (final (find_delete_button ?all lc (final (find_row ?all ()))))) = Inr (Some cb)"
    using th_all y by blast
  have 8: "prefix (events (send_sms (phone 0 0) ''+14155550100'' ''Hello'' False 0)
             @ [Print ''Returning to main Messages screen...'']
             @ events (go_back_to_main_screen (phone 0 0)
                 (final (send_sms (phone 0 0) ''+14155550100'' ''Hello'' False 0)))
             @ (if True then
                  Print ''Deleting conversation...''
                  # events (delete_last_sms (phone 0 0)
                      (final (go_back_to_main_screen (phone 0 0)
                         (final (send_sms (phone 0 0) ''+14155550100'' ''Hello'' False 0)))))
                else []))
       (events (process (phone 0 0) ''Hello'' False True 5 1 0 0 ''+14155550100'' 0))"
    using th_phone b c by blast
  have 9: "list_all (\<lambda>e. \<not> cleanup_event e)
       (events (main_loop (phone 0 0) ''Hello'' False False 5 1 0 0 [''+14155550100''] 0))"
    using th_phone by blast
  show ?thesis
    by (intro conjI a r t x y b c 1 2 3 4 5 6 7 8 9)
qed

end
